theory Spec2Isabelle
  imports
    Complex_Main
    "HOL-Library.Word"
    "HOL-Library.Char_ord"
    "HOL-Library.List_Lexorder"
    "HOL-Library.Product_Lexorder"
begin

section \<open>The Fidas 200 S downloader (Fidas\_data\_downloader.py)\<close>

text \<open>
  The script polls an FTP server, selects the monthly data files that are missing
  locally, downloads each one under a timeout and converts it to netCDF.  Exceptions
  are values of the type \<open>error\<close>; a function that may raise returns
  \<open>error + 'a\<close> with \<open>Inl\<close> for the exception.
\<close>

datatype error =
    UnboundLocalError string
  | ValueError string
  | KeyError string
  | FTPTimeoutError string
  | LibraryError string

subsection \<open>Strings: \<open>split\<close>, slices from the end, \<open>fnmatch\<close>\<close>

text \<open>
  \<open>line.split(' ')\<close>: the pieces between single spaces; never an empty list, so
  that \<open>[-1]\<close> is always defined.
\<close>

fun split :: "char \<Rightarrow> string \<Rightarrow> string list" where
  "split sep [] = [[]]"
| "split sep (c # cs) =
     (if c = sep then [] # split sep cs
      else (case split sep cs of [] \<Rightarrow> [[c]] | w # ws \<Rightarrow> (c # w) # ws))"

definition last_token :: "string \<Rightarrow> string" where
  "last_token line = last (split CHR '' '' line)"

text \<open>
  \<open>s[-a:-b]\<close> for positive \<open>a\<close>, \<open>b\<close>: Python clamps a start or stop before the
  beginning of the string to 0, which is what subtraction on \<open>nat\<close> does.
\<close>

definition slice_end :: "nat \<Rightarrow> nat \<Rightarrow> 'a list \<Rightarrow> 'a list" where
  "slice_end a b s = take ((length s - b) - (length s - a)) (drop (length s - a) s)"

text \<open>
  \<open>fnmatch(name, pat)\<close> of the standard library, on a POSIX system (the script needs
  \<open>SIGALRM\<close>), where the match is case sensitive: \<open>*\<close> matches any run of
  characters, \<open>?\<close> one character, any other character itself.  The meaning of a
  bracket expression depends on the interpreter's version; it is the parameter \<open>cc\<close>:
  given the pattern after the opening bracket it returns \<open>None\<close> when the bracket is
  not closed (it is then an ordinary character), or the set of characters the
  expression matches and the number of pattern characters it takes, the closing
  bracket included.
\<close>

type_synonym charclass = "string \<Rightarrow> ((char \<Rightarrow> bool) \<times> nat) option"

function glob :: "charclass \<Rightarrow> string \<Rightarrow> string \<Rightarrow> bool" where
  "glob cc [] s = (s = [])"
| "glob cc (p # ps) s =
     (if p = CHR ''*'' then
        glob cc ps s \<or> (case s of [] \<Rightarrow> False | c # cs \<Rightarrow> glob cc (p # ps) cs)
      else if p = CHR ''?'' then
        (case s of [] \<Rightarrow> False | c # cs \<Rightarrow> glob cc ps cs)
      else if p = CHR ''['' then
        (case cc ps of
           None \<Rightarrow> (case s of [] \<Rightarrow> False | c # cs \<Rightarrow> c = p \<and> glob cc ps cs)
         | Some (member, n) \<Rightarrow>
             (case s of [] \<Rightarrow> False | c # cs \<Rightarrow> member c \<and> glob cc (drop n ps) cs))
      else (case s of [] \<Rightarrow> False | c # cs \<Rightarrow> c = p \<and> glob cc ps cs))"
  by pat_completeness auto
termination
  by (relation "measure (\<lambda>(cc, p, s). length p + length s)") auto

definition fnmatch :: "charclass \<Rightarrow> string \<Rightarrow> string \<Rightarrow> bool" where
  "fnmatch cc name pat = glob cc pat name"

subsection \<open>The local directory\<close>

text \<open>
  A file system maps a path to the content of the file there.  \<open>os.path.exists\<close> is
  \<open>path_exists\<close>; paths are compared as strings.
\<close>

definition path_exists :: "(string \<rightharpoonup> 'c) \<Rightarrow> string \<Rightarrow> bool" where
  "path_exists fs p = (fs p \<noteq> None)"

definition join_path :: "string \<Rightarrow> string \<Rightarrow> string" where
  "join_path local_path fname = local_path @ ''/'' @ fname"

subsection \<open>\<open>files_to_be_downloaded\<close>\<close>

definition year_month_of :: "string \<Rightarrow> string \<times> string" where
  "year_month_of fn = (slice_end 11 7 fn, slice_end 6 4 fn)"

definition period_pattern :: "string \<times> string \<Rightarrow> string" where
  "period_pattern ym = ''DUSTMONITOR*'' @ fst ym @ ''_'' @ snd ym @ ''.txt''"

text \<open>
  The loop over \<open>reversed(year_month)\<close>.  \<open>fname\<close> is the loop's variable of that
  name: \<open>None\<close> while it is unbound, and unchanged by an inner loop that finds no
  match.  Reading it unbound raises \<open>UnboundLocalError\<close>.
\<close>

fun select_loop ::
  "charclass \<Rightarrow> (string \<rightharpoonup> 'c) \<Rightarrow> string \<Rightarrow> string list \<Rightarrow> (string \<times> string) list \<Rightarrow>
   string option \<Rightarrow> string list \<Rightarrow> error + string list" where
  "select_loop cc fs local_path filenames [] fname to_be_downloaded = Inr to_be_downloaded"
| "select_loop cc fs local_path filenames (ym # rest) fname to_be_downloaded =
     (case (case find (\<lambda>fn. fnmatch cc fn (period_pattern ym)) filenames of
              Some fn \<Rightarrow> Some fn
            | None \<Rightarrow> fname) of
        None \<Rightarrow> Inl (UnboundLocalError ''fname'')
      | Some f \<Rightarrow>
          if path_exists fs (join_path local_path f)
          then Inr (to_be_downloaded @ [f])
          else select_loop cc fs local_path filenames rest (Some f) (to_be_downloaded @ [f]))"

definition matching_filenames :: "charclass \<Rightarrow> string list \<Rightarrow> string list" where
  "matching_filenames cc foldercontent =
     filter (\<lambda>fn. fnmatch cc fn ''DUSTMONITOR*.txt'') (map last_token foldercontent)"

definition files_to_be_downloaded ::
  "charclass \<Rightarrow> (string \<rightharpoonup> 'c) \<Rightarrow> string list \<Rightarrow> string \<Rightarrow> error + string list option" where
  "files_to_be_downloaded cc fs foldercontent local_path =
     (let filenames = matching_filenames cc foldercontent in
      if filenames = [] then Inr None
      else
        (let year_month = sort (map year_month_of filenames) in
         case select_loop cc fs local_path filenames (rev year_month) None [] of
           Inl e \<Rightarrow> Inl e
         | Inr to_be_downloaded \<Rightarrow> Inr (Some to_be_downloaded)))"


subsection \<open>The guarded transfer: \<open>timeout\<close>, \<open>_get_ftp_file\<close>, \<open>download_data_file\<close>\<close>

definition DownloadInterval :: nat where
  "DownloadInterval = 60 * 10"

definition MaxTimeAllowed :: nat where
  "MaxTimeAllowed = 60 * 3"

text \<open>
  What the server does on \<open>RETR\<close>: a list of events, each after a wait in seconds;
  an event is a block of bytes (handed to \<open>fp.write\<close>) or an error that
  \<open>retrbinary\<close> raises.  When the list ends the transfer is complete.
\<close>

type_synonym stream = "(nat \<times> (error + string)) list"

text \<open>
  The decorator \<open>timeout(seconds, error_message)\<close>: the wrapper arms
  \<open>signal.alarm(seconds)\<close>, calls the function, and disarms the alarm when the call
  ends, however it ends; when the alarm fires during the call the handler raises
  \<open>FTPTimeoutError(error_message)\<close> inside it.  In the model the decorated function
  receives the seconds left on the alarm and the message.
\<close>

definition timeout :: "nat \<Rightarrow> string \<Rightarrow> (nat \<Rightarrow> string \<Rightarrow> 'r) \<Rightarrow> 'r" where
  "timeout seconds error_message func = func seconds error_message"

text \<open>
  \<open>retrbinary\<close> with \<open>t\<close> seconds left on the alarm: when the next event is later than
  that, \<open>FTPTimeoutError\<close> is raised.  The first component of the result lists the
  successive contents of the file written to, the second is the exception raised.
\<close>

fun retrbinary :: "nat \<Rightarrow> string \<Rightarrow> stream \<Rightarrow> string \<Rightarrow> string list \<times> error option" where
  "retrbinary t error_message [] written = ([], None)"
| "retrbinary t error_message ((d, ev) # rest) written =
     (if t < d then ([], Some (FTPTimeoutError error_message))
      else
        (case ev of
           Inl e \<Rightarrow> ([], Some e)
         | Inr block \<Rightarrow>
             (case retrbinary (t - d) error_message rest (written @ block) of
                (contents, r) \<Rightarrow> ((written @ block) # contents, r))))"

text \<open>The content of a local file: raw bytes, or a netCDF dataset (its variables).\<close>

datatype dtype = Float32 | Float64 | Int16 | UInt8

datatype 'f column =
    IntCol "64 word list"
  | FloatCol "'f list"
  | BoolCol "bool list"
  | ObjCol "string list"
  | DateCol "int list"

datatype 'f ncdata =
    Floats "'f list"
  | Vector "'f column"
  | Matrix "'f column list"
  | Shorts "16 word list"
  | Octets "8 word list"

record 'f ncvar =
  name :: string
  dtype :: dtype
  dims :: "string list"
  vals :: "'f ncdata"

datatype 'f content = Bytes string | Dataset "'f ncvar list"

type_synonym 'f filesystem = "string \<rightharpoonup> 'f content"

text \<open>
  \<open>_get_ftp_file\<close>, decorated with \<open>timeout(seconds=MaxTimeAllowed, ...)\<close>:
  \<open>open(local_fname, 'wb')\<close> creates or empties the file, then every block is
  appended.  The result is the list of the successive states of the file system (never
  empty) and the exception raised, if any.
\<close>

definition get_ftp_file ::
  "'f filesystem \<Rightarrow> stream \<Rightarrow> string \<Rightarrow> 'f filesystem list \<times> error option" where
  "get_ftp_file fs remote local_fname =
     timeout MaxTimeAllowed ''Timeout while downloading data file.''
       (\<lambda>t error_message.
          case retrbinary t error_message remote [] of
            (contents, r) \<Rightarrow> (map (\<lambda>w. fs(local_fname \<mapsto> Bytes w)) ([] # contents), r))"

text \<open>\<open>os.rename\<close>: one step; renaming a path to itself changes nothing.\<close>

definition os_rename :: "'f filesystem \<Rightarrow> string \<Rightarrow> string \<Rightarrow> error + 'f filesystem" where
  "os_rename fs src dst =
     (case fs src of
        None \<Rightarrow> Inl (LibraryError ''FileNotFoundError'')
      | Some c \<Rightarrow> Inr (if src = dst then fs else (fs(dst \<mapsto> c))(src := None)))"

text \<open>
  \<open>download_data_file\<close>: the states the file system goes through, the first being the
  state before the call and the last the state after it, and the exception raised.
  The handler for \<open>FTPTimeoutError\<close> raises the error again.
\<close>

definition download_data_file ::
  "'f filesystem \<Rightarrow> (string \<Rightarrow> stream) \<Rightarrow> string \<Rightarrow> string \<Rightarrow> 'f filesystem list \<times> error option" where
  "download_data_file fs ftpobj local_path filename =
     (case get_ftp_file fs (ftpobj filename) (join_path local_path ''temporary_dust_file.txt'') of
        (states, Some (FTPTimeoutError msg)) \<Rightarrow> (fs # states, Some (FTPTimeoutError msg))
      | (states, Some e) \<Rightarrow> (fs # states, Some e)
      | (states, None) \<Rightarrow>
          (case os_rename (last states) (join_path local_path ''temporary_dust_file.txt'')
                  (join_path local_path filename) of
             Inl e \<Rightarrow> (fs # states, Some e)
           | Inr fs' \<Rightarrow> (fs # states @ [fs'], None)))"

subsection \<open>The conversion: \<open>convert_to_netCFD4\<close>\<close>

text \<open>
  A data frame is the list of its labelled columns, in order; a column has one type, as
  in pandas: \<open>int64\<close>, \<open>float64\<close>, \<open>bool\<close>, \<open>object\<close> (strings) or
  \<open>datetime64\<close>.  What the libraries compute outside this model (parsing text into
  typed columns, floating-point numbers, dates) is a parameter, the record
  \<open>library\<close>:
  \<^item> \<open>bracket\<close>: the bracket expressions of \<open>fnmatch\<close>;
  \<^item> \<open>parse_table\<close>: the columns \<open>pandas.read_table\<close> reads from the text, in the
    file's order, before the date columns are combined;
  \<^item> \<open>combine_dates\<close>: the column built from \<open>date\<close> and \<open>time\<close>;
  \<^item> \<open>float\<close>: Python's \<open>float(x)\<close> on a string, \<open>None\<close> where it raises;
  \<^item> \<open>total_seconds\<close>: \<open>(t - basetime).total_seconds()\<close> over a column;
  \<^item> \<open>astype_int16\<close>, \<open>astype_uint8\<close>: the casts of a column that is not of
    integer type;
  \<^item> \<open>whole_value\<close>: the whole number a floating-point value is, \<open>None\<close> for a fraction,
    an infinity and NaN;
  \<^item> \<open>dot_uint8_row\<close>: the value \<open>np.dot(block, weights).astype(np.uint8)\<close> has at
    one row of a \<open>float64\<close> block where the arithmetic rounds or the cast to 8 bits is
    out of range;
  \<^item> \<open>dot_uint8\<close>: \<open>np.dot(block, weights).astype(np.uint8)\<close> for a block that
    numpy holds as an array of objects, when a column holds strings or dates or a row is
    not made of whole numbers in range.
\<close>

type_synonym 'f frame = "(string \<times> 'f column) list"

record 'f library =
  bracket :: charclass
  parse_table :: "string \<Rightarrow> error + 'f frame"
  combine_dates :: "'f column \<Rightarrow> 'f column \<Rightarrow> 'f column"
  float :: "string \<Rightarrow> 'f option"
  total_seconds :: "'f column \<Rightarrow> error + 'f list"
  astype_int16 :: "'f column \<Rightarrow> error + 16 word list"
  astype_uint8 :: "'f column \<Rightarrow> error + 8 word list"
  whole_value :: "'f \<Rightarrow> int option"
  dot_uint8_row :: "'f column list \<Rightarrow> nat \<Rightarrow> 8 word"
  dot_uint8 :: "'f column list \<Rightarrow> error + 8 word list"

text \<open>The number of rows of a table: the length of its columns.\<close>

definition column_length :: "'f column \<Rightarrow> nat" where
  "column_length c =
     (case c of
        IntCol xs \<Rightarrow> length xs
      | FloatCol xs \<Rightarrow> length xs
      | BoolCol xs \<Rightarrow> length xs
      | ObjCol xs \<Rightarrow> length xs
      | DateCol xs \<Rightarrow> length xs)"

definition table_rows :: "'f frame \<Rightarrow> nat" where
  "table_rows table = (case table of [] \<Rightarrow> 0 | c # cs \<Rightarrow> column_length (snd c))"

text \<open>
  \<open>pandas.read_table(path, parse_dates=[['date', 'time']])\<close>: a column the
  argument names must be in the header.  On a file with data rows the two columns are
  replaced by one column \<open>date_time\<close>, which pandas puts first; on a file that has a
  header and no data row pandas returns the columns of the header as they are.
\<close>

definition read_table :: "'f library \<Rightarrow> 'f content option \<Rightarrow> error + 'f frame" where
  "read_table lib file =
     (case file of
        None \<Rightarrow> Inl (LibraryError ''FileNotFoundError'')
      | Some (Dataset vs) \<Rightarrow> Inl (LibraryError ''ParserError'')
      | Some (Bytes text) \<Rightarrow>
          (case parse_table lib text of
             Inl e \<Rightarrow> Inl e
           | Inr raw \<Rightarrow>
               (case (map_of raw ''date'', map_of raw ''time'') of
                  (Some d, Some t) \<Rightarrow>
                    if table_rows raw = 0 then Inr raw
                    else
                      Inr ((''date_time'', combine_dates lib d t)
                           # filter (\<lambda>c. fst c \<noteq> ''date'' \<and> fst c \<noteq> ''time'') raw)
                | _ \<Rightarrow> Inl (ValueError ''Missing column provided to parse_dates''))))"

text \<open>\<open>xs[a:b]\<close> for \<open>0 \<le> a \<le> b\<close>.\<close>

definition list_slice :: "nat \<Rightarrow> nat \<Rightarrow> 'a list \<Rightarrow> 'a list" where
  "list_slice a b xs = take (b - a) (drop a xs)"

definition sizes_labels :: "'f frame \<Rightarrow> string list" where
  "sizes_labels dustdata = list_slice 43 121 (map fst dustdata)"

definition error_weights :: "64 word list" where
  "error_weights = [1, 2, 4, 8, 16, 32, 64, 128]"

definition int_column :: "'f column \<Rightarrow> 64 word list option" where
  "int_column c = (case c of IntCol ws \<Rightarrow> Some ws | _ \<Rightarrow> None)"

text \<open>
  \<open>np.dot(block, [[1],[2],...,[128]]).astype(np.uint8)\<close>, where \<open>block\<close> is
  \<open>dustdata[dustdata.columns[11:19]].to_numpy()\<close>.  The source has no test of the
  type of the columns; pandas and numpy compute by the type of the array:
  \<^item> all columns \<open>int64\<close>: one product per row, computed in 64 bits, then cut to 8
    bits;
  \<^item> all columns \<open>bool\<close>: \<open>True\<close> counts 1 and \<open>False\<close> 0, the product is \<open>int64\<close>;
  \<^item> columns \<open>int64\<close> and \<open>float64\<close>, not all \<open>int64\<close>: the array is \<open>float64\<close>.
    That type holds every whole number up to \<open>2 ^ 53\<close> and adds and multiplies such
    numbers exactly while the results stay in that range, so a row of whole numbers up
    to \<open>2 ^ 40\<close> gives their weighted sum, and the cast keeps a sum from 0 to 255; any
    other row (a fraction, NaN, a sum out of range) is left to \<open>dot_uint8_row\<close>;
  \<^item> \<open>bool\<close> columns together with \<open>int64\<close> or \<open>float64\<close> columns: the array holds
    Python objects, the products and sums are Python's, and they are exact on rows as
    above; a row that is not so may make the cast raise, and then the whole block is
    left to \<open>dot_uint8\<close>;
  \<^item> a block with a column of strings or dates is left to \<open>dot_uint8\<close>.
\<close>

definition dot :: "64 word list \<Rightarrow> 64 word list \<Rightarrow> 64 word" where
  "dot row weights = sum_list (map2 (*) row weights)"

definition weighted :: "int list \<Rightarrow> int" where
  "weighted row = sum_list (map2 (*) row [1, 2, 4, 8, 16, 32, 64, 128])"

text \<open>
  The values of a column of numbers or booleans as whole numbers, \<open>None\<close> for a
  floating-point value that is not a whole number.
\<close>

definition flag_column :: "'f library \<Rightarrow> 'f column \<Rightarrow> int option list option" where
  "flag_column lib c =
     (case c of
        IntCol ws \<Rightarrow> Some (map (\<lambda>w. Some (sint w)) ws)
      | FloatCol xs \<Rightarrow> Some (map (whole_value lib) xs)
      | BoolCol bs \<Rightarrow> Some (map (\<lambda>b. Some (of_bool b)) bs)
      | _ \<Rightarrow> None)"

definition is_bool :: "'f column \<Rightarrow> bool" where
  "is_bool c = (case c of BoolCol bs \<Rightarrow> True | _ \<Rightarrow> False)"

definition is_number :: "'f column \<Rightarrow> bool" where
  "is_number c = (case c of IntCol ws \<Rightarrow> True | FloatCol xs \<Rightarrow> True | _ \<Rightarrow> False)"

text \<open>A row on which the arithmetic is exact and the cast to 8 bits in range.\<close>

definition exact :: "int option list \<Rightarrow> bool" where
  "exact row \<longleftrightarrow>
     (case those row of
        None \<Rightarrow> False
      | Some vs \<Rightarrow> (\<forall>v\<in>set vs. \<bar>v\<bar> \<le> 2 ^ 40) \<and> 0 \<le> weighted vs \<and> weighted vs < 256)"

definition packed :: "int option list \<Rightarrow> 8 word" where
  "packed row = word_of_int (weighted (map the row))"

definition errors_of :: "'f library \<Rightarrow> 'f column list \<Rightarrow> error + 8 word list" where
  "errors_of lib block =
     (if length block \<noteq> 8 then Inl (ValueError ''shapes not aligned'')
      else
        (case those (map int_column block) of
           Some cols \<Rightarrow> Inr (map (\<lambda>row. ucast (dot row error_weights)) (transpose cols))
         | None \<Rightarrow>
             (case those (map (flag_column lib) block) of
                None \<Rightarrow> dot_uint8 lib block
              | Some cols \<Rightarrow>
                  if list_all is_bool block then Inr (map packed (transpose cols))
                  else if list_all is_number block then
                    Inr (map (\<lambda>r. if exact (snd r) then packed (snd r)
                                   else dot_uint8_row lib block (fst r))
                           (enumerate 0 (transpose cols)))
                  else if list_all exact (transpose cols) then Inr (map packed (transpose cols))
                  else dot_uint8 lib block)))"

text \<open>
  The variables, in the order the function writes them.  Units and long names are
  attributes of the file that no property below depends on; they are left out.
\<close>

datatype step =
    Sizes
  | Time
  | Copy string string
  | AsInt16 string string
  | Spectra
  | Errors
  | AsUInt8 string string

definition variables :: "step list" where
  "variables =
     [Sizes, Time,
      Copy ''PM1'' ''PM1'', Copy ''PM2.5'' ''PM2.5'', Copy ''PM4'' ''PM4'',
      Copy ''PM10'' ''PM10'', Copy ''PMtot'' ''PMtot'', Copy ''Cn'' ''Cn'',
      Copy ''rH'' ''rH'', Copy ''dewT'' ''T_dew_point'', Copy ''T'' ''T'', Copy ''p'' ''p'',
      Copy ''Wspeed'' ''wind speed'', Copy ''Wdir'' ''wind direction'',
      Copy ''Wq'' ''wind signal quality'', Copy ''prec'' ''prec. int.'',
      AsInt16 ''ptype'' ''prec. type'',
      Spectra,
      Copy ''flowrate'' ''flowrate'', Copy ''velocity'' ''velocity'',
      Copy ''coincidence'' ''coincidence'', Copy ''po'' ''pump output'',
      Copy ''IADS_T'' ''IADS T'', Copy ''cd'' ''channel deviation'', Copy ''LED_T'' ''LED T'',
      Errors,
      AsUInt8 ''mode'' ''modus'',
      Copy ''PM1a'' ''alt. PM#1'', Copy ''PM2.5a'' ''alt. PM#2'', Copy ''PM4a'' ''alt. PM#3'',
      Copy ''PM10a'' ''alt. PM#4'', Copy ''PMtota'' ''alt. PM#5'', Copy ''PM1c'' ''alt. PM#6'',
      Copy ''PM2.5c'' ''alt. PM#7'', Copy ''PM4c'' ''alt. PM#8'', Copy ''PM10c'' ''alt. PM#9'',
      Copy ''PMtotc'' ''alt. PM#10'', Copy ''PMth'' ''alt. PM#11'', Copy ''PMal'' ''alt. PM#12'',
      Copy ''PMre'' ''alt. PM#13'']"

definition column_of :: "'f frame \<Rightarrow> string \<Rightarrow> error + 'f column" where
  "column_of dustdata label =
     (case map_of dustdata label of None \<Rightarrow> Inl (KeyError label) | Some c \<Rightarrow> Inr c)"

definition columns_of :: "'f frame \<Rightarrow> string list \<Rightarrow> error + 'f column list" where
  "columns_of dustdata labels =
     (case those (map (map_of dustdata) labels) of
        None \<Rightarrow> Inl (KeyError ''not in index'')
      | Some cs \<Rightarrow> Inr cs)"

fun variable :: "'f library \<Rightarrow> 'f frame \<Rightarrow> step \<Rightarrow> error + 'f ncvar" where
  "variable lib dustdata Sizes =
     (case those (map (float lib) (sizes_labels dustdata)) of
        None \<Rightarrow> Inl (ValueError ''could not convert string to float'')
      | Some xs \<Rightarrow>
          Inr \<lparr>name = ''sizes'', dtype = Float32, dims = [''sizes''], vals = Floats xs\<rparr>)"
| "variable lib dustdata Time =
     (case column_of dustdata ''date_time'' of
        Inl e \<Rightarrow> Inl e
      | Inr c \<Rightarrow>
          (case total_seconds lib c of
             Inl e \<Rightarrow> Inl e
           | Inr xs \<Rightarrow>
               Inr \<lparr>name = ''time'', dtype = Float64, dims = [''time''], vals = Floats xs\<rparr>))"
| "variable lib dustdata (Copy v label) =
     (case column_of dustdata label of
        Inl e \<Rightarrow> Inl e
      | Inr c \<Rightarrow> Inr \<lparr>name = v, dtype = Float32, dims = [''time''], vals = Vector c\<rparr>)"
| "variable lib dustdata (AsInt16 v label) =
     (case column_of dustdata label of
        Inl e \<Rightarrow> Inl e
      | Inr c \<Rightarrow>
          (case (case c of IntCol ws \<Rightarrow> Inr (map ucast ws) | _ \<Rightarrow> astype_int16 lib c) of
             Inl e \<Rightarrow> Inl e
           | Inr xs \<Rightarrow> Inr \<lparr>name = v, dtype = Int16, dims = [''time''], vals = Shorts xs\<rparr>))"
| "variable lib dustdata Spectra =
     (case columns_of dustdata (sizes_labels dustdata) of
        Inl e \<Rightarrow> Inl e
      | Inr cs \<Rightarrow>
          Inr \<lparr>name = ''spectra'', dtype = Float32, dims = [''time'', ''sizes''],
               vals = Matrix cs\<rparr>)"
| "variable lib dustdata Errors =
     (case columns_of dustdata (list_slice 11 19 (map fst dustdata)) of
        Inl e \<Rightarrow> Inl e
      | Inr block \<Rightarrow>
          (case errors_of lib block of
             Inl e \<Rightarrow> Inl e
           | Inr xs \<Rightarrow>
               Inr \<lparr>name = ''errors'', dtype = UInt8, dims = [''time''], vals = Octets xs\<rparr>))"
| "variable lib dustdata (AsUInt8 v label) =
     (case column_of dustdata label of
        Inl e \<Rightarrow> Inl e
      | Inr c \<Rightarrow>
          (case (case c of IntCol ws \<Rightarrow> Inr (map ucast ws) | _ \<Rightarrow> astype_uint8 lib c) of
             Inl e \<Rightarrow> Inl e
           | Inr xs \<Rightarrow> Inr \<lparr>name = v, dtype = UInt8, dims = [''time''], vals = Octets xs\<rparr>))"

text \<open>
  Writing the variables one after the other into the open dataset at \<open>path\<close>: the
  states of the file system after each variable, and the exception that stopped the
  writing, if any.
\<close>

fun write_variables ::
  "'f library \<Rightarrow> 'f frame \<Rightarrow> 'f filesystem \<Rightarrow> string \<Rightarrow> step list \<Rightarrow> 'f ncvar list \<Rightarrow>
   'f filesystem list \<times> error option" where
  "write_variables lib dustdata fs path [] written = ([], None)"
| "write_variables lib dustdata fs path (st # rest) written =
     (case variable lib dustdata st of
        Inl e \<Rightarrow> ([], Some e)
      | Inr v \<Rightarrow>
          (case write_variables lib dustdata fs path rest (written @ [v]) of
             (states, r) \<Rightarrow> (fs(path \<mapsto> Dataset (written @ [v])) # states, r)))"

definition convert_to_netCFD4 ::
  "'f library \<Rightarrow> 'f filesystem \<Rightarrow> string \<Rightarrow> string \<Rightarrow> 'f filesystem list \<times> error option" where
  "convert_to_netCFD4 lib fs local_path filename =
     (case read_table lib (fs (join_path local_path filename)) of
        Inl e \<Rightarrow> ([fs], Some e)
      | Inr dustdata \<Rightarrow>
          (let temporary = join_path local_path ''temporary_dust_file.nc'';
               created = fs(temporary \<mapsto> Dataset [])
           in case write_variables lib dustdata fs temporary variables [] of
                (states, Some e) \<Rightarrow> (fs # created # states, Some e)
              | (states, None) \<Rightarrow>
                  (case os_rename (last (created # states)) temporary
                          (join_path local_path (take (length filename - 4) filename @ ''.nc'')) of
                     Inl e \<Rightarrow> (fs # created # states, Some e)
                   | Inr fs' \<Rightarrow> (fs # created # states @ [fs'], None))))"

subsection \<open>The main loop\<close>

text \<open>
  The names imported from \<open>Fidas_credentials\<close> that the loop uses, and what the
  world does during one cycle: the result of \<open>open_ftp_get_file_list\<close>, the server's
  answer to each \<open>RETR\<close>, the result of \<open>ftplink.quit()\<close>, and the time the cycle
  has taken when it reads the clock again.
\<close>

record credentials =
  DATADIR :: string
  TARGET_PATH :: string

record world =
  listing :: "error + string list"
  retr :: "string \<Rightarrow> stream"
  quit :: "error option"
  elapsed_time :: real

text \<open>The \<open>for fname in to_be_downloaded\<close> loop: the exception raised and the final state.\<close>

fun download_and_convert ::
  "'f library \<Rightarrow> world \<Rightarrow> string \<Rightarrow> 'f filesystem \<Rightarrow> string list \<Rightarrow> error option \<times> 'f filesystem" where
  "download_and_convert lib w target fs [] = (None, fs)"
| "download_and_convert lib w target fs (fname # rest) =
     (case download_data_file fs (retr w) target fname of
        (states, Some e) \<Rightarrow> (Some e, last states)
      | (states, None) \<Rightarrow>
          (case convert_to_netCFD4 lib (last states) target fname of
             (states', Some e) \<Rightarrow> (Some e, last states')
           | (states', None) \<Rightarrow> download_and_convert lib w target (last states') rest))"

text \<open>\<open>time.sleep\<close> raises \<open>ValueError\<close> on a negative argument.\<close>

definition sleep :: "real \<Rightarrow> error + real" where
  "sleep secs = (if secs < 0 then Inl (ValueError ''sleep length must be non-negative'') else Inr secs)"

text \<open>
  How a cycle ends: it has slept, or the handler \<open>except Exception\<close> has printed the
  exception.  Either way the \<open>while True\<close> loop starts the next cycle at once.
\<close>

datatype ending = Slept real | Printed error

text \<open>The body of the \<open>try\<close> block, up to \<open>ftplink.quit()\<close>.\<close>

definition cycle_body ::
  "'f library \<Rightarrow> credentials \<Rightarrow> world \<Rightarrow> 'f filesystem \<Rightarrow> error option \<times> 'f filesystem" where
  "cycle_body lib cred w fs =
     (case listing w of
        Inl e \<Rightarrow> (Some e, fs)
      | Inr foldercontent \<Rightarrow>
          (case files_to_be_downloaded (bracket lib) fs foldercontent (TARGET_PATH cred) of
             Inl e \<Rightarrow> (Some e, fs)
           | Inr None \<Rightarrow> (Some (ValueError (''Data files not found in folder: '' @ DATADIR cred)), fs)
           | Inr (Some to_be_downloaded) \<Rightarrow>
               (case download_and_convert lib w (TARGET_PATH cred) fs to_be_downloaded of
                  (Some e, fs') \<Rightarrow> (Some e, fs')
                | (None, fs') \<Rightarrow> (quit w, fs'))))"

definition poll_cycle ::
  "'f library \<Rightarrow> credentials \<Rightarrow> world \<Rightarrow> 'f filesystem \<Rightarrow> ending \<times> 'f filesystem" where
  "poll_cycle lib cred w fs =
     (case cycle_body lib cred w fs of
        (Some e, fs') \<Rightarrow> (Printed e, fs')
      | (None, fs') \<Rightarrow>
          (case sleep (real DownloadInterval - elapsed_time w) of
             Inl e \<Rightarrow> (Printed e, fs')
           | Inr secs \<Rightarrow> (Slept secs, fs')))"

text \<open>
  The first \<open>n\<close> cycles of \<open>while True\<close>, one world per cycle: how each cycle ended.
\<close>

fun poll_loop ::
  "'f library \<Rightarrow> credentials \<Rightarrow> world list \<Rightarrow> 'f filesystem \<Rightarrow> ending list" where
  "poll_loop lib cred [] fs = []"
| "poll_loop lib cred (w # ws) fs =
     (case poll_cycle lib cred w fs of (e, fs') \<Rightarrow> e # poll_loop lib cred ws fs')"


subsection \<open>Notions used to state the properties\<close>

text \<open>The characters with a meaning of their own in an \<open>fnmatch\<close> pattern.\<close>

definition wild :: "char \<Rightarrow> bool" where
  "wild c = (c = CHR ''*'' \<or> c = CHR ''?'' \<or> c = CHR ''['')"

text \<open>
  A name that follows the instrument's convention \<open>..._YYYY_MM.txt\<close> as far as the
  selection depends on it: long enough for the prefix and the period not to overlap, an
  underscore between the year and the month, and no pattern character in either.
\<close>

definition well_named :: "string \<Rightarrow> bool" where
  "well_named fn \<longleftrightarrow>
     22 \<le> length fn \<and> slice_end 7 6 fn = ''_'' \<and>
     (\<forall>c \<in> set (fst (year_month_of fn) @ snd (year_month_of fn)). \<not> wild c)"

text \<open>The prefix of a list up to and including its first element that satisfies \<open>P\<close>.\<close>

fun stop_after :: "('a \<Rightarrow> bool) \<Rightarrow> 'a list \<Rightarrow> 'a list" where
  "stop_after P [] = []"
| "stop_after P (x # xs) = (if P x then [x] else x # stop_after P xs)"

text \<open>The first name, in listing order, of a period.\<close>

definition first_of_period :: "string list \<Rightarrow> string \<times> string \<Rightarrow> string option" where
  "first_of_period filenames ym = find (\<lambda>fn. year_month_of fn = ym) filenames"

definition present :: "(string \<rightharpoonup> 'c) \<Rightarrow> string \<Rightarrow> string \<Rightarrow> bool" where
  "present fs local_path fname = path_exists fs (join_path local_path fname)"

text \<open>The period keys, one per name (duplicates kept), newest first.\<close>

definition newest_first :: "string list \<Rightarrow> (string \<times> string) list" where
  "newest_first filenames = rev (sort (map year_month_of filenames))"

subsection \<open>A scenario\<close>

text \<open>Three monthly files on the server.\<close>

definition example_listing :: "string list" where
  "example_listing =
     [''-rw-r--r-- 1 ftp ftp 512 Jan 31 23:59 DUSTMONITOR_7_2024_01.txt'',
      ''-rw-r--r-- 1 ftp ftp 512 Feb 29 23:59 DUSTMONITOR_7_2024_02.txt'',
      ''-rw-r--r-- 1 ftp ftp 128 Mar 01 00:10 DUSTMONITOR_7_2024_03.txt'',
      ''drwxr-xr-x 2 ftp ftp   0 Jan 01 00:00 logs'']"


subsection \<open>What a transfer and a run are measured against\<close>

text \<open>
  The bytes of a whole transfer, the time it takes when nothing interrupts it, and
  whether the server reports no error during it.
\<close>

definition payload :: "stream \<Rightarrow> string" where
  "payload remote = concat (map (\<lambda>x. case snd x of Inl e \<Rightarrow> [] | Inr block \<Rightarrow> block) remote)"

definition duration :: "stream \<Rightarrow> nat" where
  "duration remote = sum_list (map fst remote)"

definition no_server_error :: "stream \<Rightarrow> bool" where
  "no_server_error remote = list_all (\<lambda>x. case snd x of Inl e \<Rightarrow> False | Inr block \<Rightarrow> True) remote"

text \<open>
  A run is the list of the states of the file system it goes through and the exception
  it raises.  \<open>published_whole fs run final whole\<close>: in every state but the last the
  file named \<open>final\<close> is as it was in \<open>fs\<close>; after a run that raised it still is; after
  a run that did not, it holds a content that is \<open>whole\<close>.
\<close>

definition published_whole ::
  "'f filesystem \<Rightarrow> 'f filesystem list \<times> error option \<Rightarrow> string \<Rightarrow> ('f content \<Rightarrow> bool) \<Rightarrow> bool" where
  "published_whole fs run final whole \<longleftrightarrow>
     (\<forall>s\<in>set (butlast (fst run)). s final = fs final) \<and>
     (case snd run of
        Some e \<Rightarrow> last (fst run) final = fs final
      | None \<Rightarrow> (\<exists>c. last (fst run) final = Some c \<and> whole c))"

text \<open>
  The flag a column of numbers or booleans holds in row \<open>i\<close>, as a whole number;
  \<open>None\<close> where the column holds something else.
\<close>

definition flag :: "'f library \<Rightarrow> 'f column \<Rightarrow> nat \<Rightarrow> int option" where
  "flag lib c i =
     (case flag_column lib c of
        None \<Rightarrow> None
      | Some vs \<Rightarrow> if i < length vs then vs ! i else None)"

subsection \<open>More of the scenario: a data file and a library that reads it\<close>

text \<open>
  A data file of 124 columns and one row, as text with tabs: \<open>date\<close> and \<open>time\<close>,
  ten measurements, the eight error flags (those of weight 1 and 8 set), 24 more
  columns, the 78 size channels \<open>0.5\<close>, \<open>1.0\<close>, ..., \<open>39.0\<close>, and two last columns.
\<close>

definition size_label :: "nat \<Rightarrow> string" where
  "size_label k =
     (if k div 2 < 10 then [''0123456789'' ! (k div 2)]
      else [''0123456789'' ! (k div 20), ''0123456789'' ! (k div 2 mod 10)])
     @ (if even k then ''.0'' else ''.5'')"

definition example_header :: "string list" where
  "example_header =
     [''date'', ''time'',
      ''PM1'', ''PM2.5'', ''PM4'', ''PM10'', ''PMtot'', ''Cn'', ''rH'', ''T_dew_point'', ''T'', ''p'',
      ''err flow'', ''err coincidence'', ''err pump'', ''err weather station'', ''err IADS'',
      ''err channel deviation'', ''err LED temperature'', ''err operation mode'',
      ''wind speed'', ''wind direction'', ''wind signal quality'', ''prec. int.'', ''prec. type'',
      ''flowrate'', ''velocity'', ''coincidence'', ''pump output'', ''IADS T'',
      ''channel deviation'', ''LED T'', ''modus'',
      ''alt. PM#1'', ''alt. PM#2'', ''alt. PM#3'', ''alt. PM#4'', ''alt. PM#5'', ''alt. PM#6'',
      ''alt. PM#7'', ''alt. PM#8'', ''alt. PM#9'', ''alt. PM#10'', ''alt. PM#11'']
     @ map size_label [1..<79]
     @ [''alt. PM#12'', ''alt. PM#13'']"

definition example_row :: "string list" where
  "example_row =
     [''2024-03-01'', ''00:00:00'']
     @ replicate 10 ''0.5''
     @ [''1'', ''0'', ''0'', ''1'', ''0'', ''0'', ''0'', ''0'']
     @ replicate 4 ''0.5'' @ [''0''] @ replicate 7 ''0.5'' @ [''1'']
     @ replicate 11 ''0.5''
     @ replicate 78 ''0.5''
     @ replicate 2 ''0.5''"

fun join :: "char \<Rightarrow> string list \<Rightarrow> string" where
  "join sep [] = []"
| "join sep [x] = x"
| "join sep (x # y # ys) = x @ sep # join sep (y # ys)"

definition header_line :: string where
  "header_line = join (CHR 0x09) example_header @ [CHR 0x0A]"

definition row_line :: string where
  "row_line = join (CHR 0x09) example_row @ [CHR 0x0A]"

definition example_text :: string where
  "example_text = header_line @ row_line"


text \<open>
  A library for the scenario, with the rational numbers for the floating-point values.
  It reads tables whose every line has a cell for every column, numbers written with
  digits and at most one point, and the one date of the scenario; what it returns on
  such inputs is what pandas, numpy and \<open>float\<close> return when the numbers are
  floating-point values (halves and whole numbers are).  Bracket expressions are never
  closed.
\<close>

definition digits :: "string \<Rightarrow> bool" where
  "digits s \<longleftrightarrow> s \<noteq> [] \<and> (\<forall>c\<in>set s. CHR ''0'' \<le> c \<and> c \<le> CHR ''9'')"

definition number :: "string \<Rightarrow> nat" where
  "number s = foldl (\<lambda>n c. 10 * n + (of_char c - 48)) 0 s"

definition decimal :: "string \<Rightarrow> rat option" where
  "decimal s =
     (case split CHR ''.'' s of
        [a] \<Rightarrow> if digits a then Some (of_nat (number a)) else None
      | [a, b] \<Rightarrow>
          if digits a \<and> digits b
          then Some (of_nat (number a) + of_nat (number b) / 10 ^ length b)
          else None
      | _ \<Rightarrow> None)"

definition typed :: "string list \<Rightarrow> rat column" where
  "typed cells =
     (if cells = [] then ObjCol []
      else if \<forall>c\<in>set cells. digits c then IntCol (map (\<lambda>c. of_nat (number c)) cells)
      else if \<forall>c\<in>set cells. c = ''True'' \<or> c = ''False'' then BoolCol (map (\<lambda>c. c = ''True'') cells)
      else if \<forall>c\<in>set cells. decimal c \<noteq> None then FloatCol (map (\<lambda>c. the (decimal c)) cells)
      else ObjCol cells)"

definition simple_table :: "string \<Rightarrow> error + rat frame" where
  "simple_table text =
     (case filter (\<lambda>l. l \<noteq> []) (split (CHR 0x0A) text) of
        [] \<Rightarrow> Inl (LibraryError ''EmptyDataError'')
      | h # ls \<Rightarrow>
          (let labels = split (CHR 0x09) h; rows = map (split (CHR 0x09)) ls in
           if \<exists>r\<in>set rows. length r \<noteq> length labels
           then Inl (LibraryError ''ParserError'')
           else Inr (map (\<lambda>j. (labels ! j, typed (map (\<lambda>r. r ! j) rows))) [0..<length labels])))"

definition simple_dates :: "rat column \<Rightarrow> rat column \<Rightarrow> rat column" where
  "simple_dates d t =
     (case (d, t) of
        (ObjCol ds, ObjCol ts) \<Rightarrow>
          if \<forall>x\<in>set (zip ds ts). x = (''2024-03-01'', ''00:00:00'')
          then DateCol (map (\<lambda>x. 1709251200000000000) (zip ds ts))
          else ObjCol (map (\<lambda>x. fst x @ '' '' @ snd x) (zip ds ts))
      | _ \<Rightarrow> ObjCol [])"

definition simple_seconds :: "rat column \<Rightarrow> error + rat list" where
  "simple_seconds c =
     (case c of
        DateCol ts \<Rightarrow> Inr (map (\<lambda>t. of_int (t - 1577836800000000000) / 1000000000) ts)
      | _ \<Rightarrow> Inl (LibraryError ''TypeError''))"

definition simple_whole :: "rat \<Rightarrow> int option" where
  "simple_whole x = (if of_int \<lfloor>x\<rfloor> = x then Some \<lfloor>x\<rfloor> else None)"

definition simple_cast :: "rat column \<Rightarrow> error + 'a::len word list" where
  "simple_cast c =
     (case c of
        IntCol ws \<Rightarrow> Inr (map ucast ws)
      | BoolCol bs \<Rightarrow> Inr (map of_bool bs)
      | FloatCol xs \<Rightarrow> Inr (map (\<lambda>x. word_of_int \<lfloor>x\<rfloor>) xs)
      | _ \<Rightarrow> Inl (ValueError ''invalid literal''))"

definition example_library :: "rat library" where
  "example_library =
     \<lparr>bracket = (\<lambda>_. None),
      parse_table = simple_table,
      combine_dates = simple_dates,
      float = decimal,
      total_seconds = simple_seconds,
      astype_int16 = simple_cast,
      astype_uint8 = simple_cast,
      whole_value = simple_whole,
      dot_uint8_row = (\<lambda>block i. 0),
      dot_uint8 = (\<lambda>block. Inl (LibraryError ''TypeError''))\<rparr>"

text \<open>The table pandas reads from the file, and the table the conversion works on.\<close>

definition example_raw :: "rat frame" where
  "example_raw =
     [(''date'', ObjCol [''2024-03-01'']), (''time'', ObjCol [''00:00:00''])]
     @ map (\<lambda>l. (l, FloatCol [1 / 2])) (list_slice 2 12 example_header)
     @ map (\<lambda>(l, v). (l, IntCol [v]))
         (zip (list_slice 12 20 example_header) [1, 0, 0, 1, 0, 0, 0, 0])
     @ map (\<lambda>l. (l, FloatCol [1 / 2])) (list_slice 20 24 example_header)
     @ [(''prec. type'', IntCol [0])]
     @ map (\<lambda>l. (l, FloatCol [1 / 2])) (list_slice 25 32 example_header)
     @ [(''modus'', IntCol [1])]
     @ map (\<lambda>l. (l, FloatCol [1 / 2])) (list_slice 33 124 example_header)"

definition example_table :: "rat frame" where
  "example_table = (''date_time'', DateCol [1709251200000000000]) # drop 2 example_raw"

text \<open>The same table with other columns for the eight flags.\<close>

definition with_flags :: "rat column list \<Rightarrow> rat frame" where
  "with_flags cols =
     take 11 example_table @ zip (list_slice 12 20 example_header) cols @ drop 19 example_table"

text \<open>
  The oldest of the three files is already in the local directory.  A server that sends
  the file in two seconds and one that needs 210; a world in which a cycle succeeds and
  one in which the server refuses the connection.
\<close>

definition example_local :: "rat filesystem" where
  "example_local = [''/data/DUSTMONITOR_7_2024_01.txt'' \<mapsto> Bytes example_text]"

definition example_credentials :: credentials where
  "example_credentials = \<lparr>DATADIR = ''/fidas'', TARGET_PATH = ''/data''\<rparr>"

definition quick_server :: "string \<Rightarrow> stream" where
  "quick_server remote_fname = [(1, Inr header_line), (1, Inr row_line)]"

definition slow_server :: "string \<Rightarrow> stream" where
  "slow_server remote_fname = [(60, Inr header_line), (150, Inr row_line)]"

definition example_world :: "real \<Rightarrow> world" where
  "example_world t =
     \<lparr>listing = Inr [''-rw-r--r-- 1 ftp ftp 42 Mar 01 00:10 DUSTMONITOR_7_2024_03.txt''],
      retr = quick_server,
      quit = None,
      elapsed_time = t\<rparr>"

definition failing_world :: world where
  "failing_world =
     \<lparr>listing = Inl (LibraryError ''ConnectionRefusedError''),
      retr = (\<lambda>_. []),
      quit = None,
      elapsed_time = 1\<rparr>"

text \<open>A listing with a stray file whose name carries no period.\<close>

definition stray_listing :: "string list" where
  "stray_listing =
     [''-rw-r--r-- 1 ftp ftp 128 Mar 01 00:10 DUSTMONITOR_7_2024_03.txt'',
      ''-rw-r--r-- 1 ftp ftp  64 Mar 01 00:11 DUSTMONITOR_backup.txt'']"

text \<open>Two files of the same month on the server, none of them local.\<close>

definition duplicate_listing :: "string list" where
  "duplicate_listing =
     [''-rw-r--r-- 1 ftp ftp 128 Mar 01 00:10 DUSTMONITOR_a_2024_03.txt'',
      ''-rw-r--r-- 1 ftp ftp 128 Mar 01 00:10 DUSTMONITOR_b_2024_03.txt'',
      ''-rw-r--r-- 1 ftp ftp 512 Feb 29 23:59 DUSTMONITOR_a_2024_02.txt'']"

section \<open>Properties of the selection\<close>

lemma glob_Nil_name: "glob cc (p # ps) [] = (p = CHR ''*'' \<and> glob cc ps [])"
  by (auto split: option.splits)

declare glob.simps(2) [simp del]

lemma glob_literal_Cons:
  "\<not> wild p \<Longrightarrow> glob cc (p # ps) s = (\<exists>cs. s = p # cs \<and> glob cc ps cs)"
  by (cases s) (auto simp: wild_def glob.simps(2))

lemma glob_star:
  "glob cc (CHR ''*'' # ps) s = (\<exists>i\<le>length s. glob cc ps (drop i s))"
proof (induction s)
  case Nil
  show ?case by (simp add: glob.simps(2))
next
  case (Cons c cs)
  have "glob cc (CHR ''*'' # ps) (c # cs)
        = (glob cc ps (c # cs) \<or> glob cc (CHR ''*'' # ps) cs)"
    by (subst glob.simps(2)) simp
  also have "\<dots> = (glob cc ps (drop 0 (c # cs)) \<or> (\<exists>i\<le>length cs. glob cc ps (drop (Suc i) (c # cs))))"
    using Cons.IH by simp
  also have "\<dots> = (\<exists>i\<le>length (c # cs). glob cc ps (drop i (c # cs)))"
  proof
    assume "glob cc ps (drop 0 (c # cs)) \<or> (\<exists>i\<le>length cs. glob cc ps (drop (Suc i) (c # cs)))"
    then show "\<exists>i\<le>length (c # cs). glob cc ps (drop i (c # cs))"
    proof
      assume "glob cc ps (drop 0 (c # cs))"
      then show ?thesis by (intro exI[of _ 0]) simp
    next
      assume "\<exists>i\<le>length cs. glob cc ps (drop (Suc i) (c # cs))"
      then obtain i where "i \<le> length cs" "glob cc ps (drop (Suc i) (c # cs))" by blast
      then show ?thesis by (intro exI[of _ "Suc i"]) simp
    qed
  next
    assume "\<exists>i\<le>length (c # cs). glob cc ps (drop i (c # cs))"
    then obtain i where i: "i \<le> length (c # cs)" "glob cc ps (drop i (c # cs))" by blast
    show "glob cc ps (drop 0 (c # cs)) \<or> (\<exists>i\<le>length cs. glob cc ps (drop (Suc i) (c # cs)))"
    proof (cases i)
      case 0
      with i show ?thesis by simp
    next
      case (Suc j)
      with i have "j \<le> length cs" "glob cc ps (drop (Suc j) (c # cs))" by simp_all
      then show ?thesis by blast
    qed
  qed
  finally show ?case .
qed

lemma glob_plain: "\<forall>c\<in>set p. \<not> wild c \<Longrightarrow> glob cc p s = (s = p)"
proof (induction p arbitrary: s)
  case Nil
  show ?case by simp
next
  case (Cons a p)
  then have "\<not> wild a" and "\<forall>c\<in>set p. \<not> wild c" by simp_all
  then show ?case using Cons.IH by (auto simp: glob_literal_Cons)
qed

lemma glob_plain_append:
  "\<forall>c\<in>set l. \<not> wild c \<Longrightarrow> glob cc (l @ p) s = (\<exists>r. s = l @ r \<and> glob cc p r)"
proof (induction l arbitrary: s)
  case Nil
  show ?case by simp
next
  case (Cons a l)
  then have "\<not> wild a" and "\<forall>c\<in>set l. \<not> wild c" by simp_all
  then show ?case using Cons.IH by (auto simp: glob_literal_Cons)
qed

lemma glob_prefix_star_suffix:
  assumes "\<forall>c\<in>set l. \<not> wild c" and "\<forall>c\<in>set t. \<not> wild c"
  shows "glob cc (l @ CHR ''*'' # t) s = (\<exists>mid. s = l @ mid @ t)"
proof -
  have "glob cc (l @ CHR ''*'' # t) s = (\<exists>r. s = l @ r \<and> (\<exists>i\<le>length r. drop i r = t))"
    using assms by (simp add: glob_plain_append glob_star glob_plain)
  also have "\<dots> = (\<exists>mid. s = l @ mid @ t)"
  proof
    assume "\<exists>r. s = l @ r \<and> (\<exists>i\<le>length r. drop i r = t)"
    then obtain r i where "s = l @ r" "drop i r = t" by blast
    then have "s = l @ take i r @ t" by (metis append_take_drop_id)
    then show "\<exists>mid. s = l @ mid @ t" ..
  next
    assume "\<exists>mid. s = l @ mid @ t"
    then obtain mid where "s = l @ mid @ t" ..
    then have "s = l @ (mid @ t) \<and> length mid \<le> length (mid @ t) \<and> drop (length mid) (mid @ t) = t" by simp
    then show "\<exists>r. s = l @ r \<and> (\<exists>i\<le>length r. drop i r = t)" by blast
  qed
  finally show ?thesis .
qed

lemma infix_conv:
  "(\<exists>mid. s = l @ mid @ t) \<longleftrightarrow>
     length l + length t \<le> length s \<and> take (length l) s = l \<and> drop (length s - length t) s = t"
proof
  assume "\<exists>mid. s = l @ mid @ t"
  then obtain mid where "s = l @ mid @ t" ..
  then show "length l + length t \<le> length s \<and> take (length l) s = l \<and> drop (length s - length t) s = t"
    by simp
next
  assume a: "length l + length t \<le> length s \<and> take (length l) s = l \<and> drop (length s - length t) s = t"
  let ?k = "length s - length t"
  have "s = take ?k s @ drop ?k s" by simp
  moreover have "take ?k s = take (length l) (take ?k s) @ drop (length l) (take ?k s)"
    by (simp only: append_take_drop_id)
  moreover have "length l \<le> ?k" using a by linarith
  then have "take (length l) (take ?k s) = l" using a by (simp add: min_def)
  ultimately have "s = l @ drop (length l) (take ?k s) @ t" using a by (metis append.assoc)
  then show "\<exists>mid. s = l @ mid @ t" ..
qed

lemma slice_end_pieces:
  assumes "11 \<le> length g"
  shows "drop (length g - 11) g
         = slice_end 11 7 g @ slice_end 7 6 g @ slice_end 6 4 g @ drop (length g - 4) g"
proof -
  let ?n = "length g"
  have s1: "slice_end 11 7 g = take 4 (drop (?n - 11) g)"
    using assms by (simp add: slice_end_def)
  have s2: "slice_end 7 6 g = take 1 (drop (?n - 7) g)"
    using assms by (simp add: slice_end_def)
  have s3: "slice_end 6 4 g = take 2 (drop (?n - 6) g)"
    using assms by (simp add: slice_end_def)
  have e1: "?n - 7 = 4 + (?n - 11)" and e2: "?n - 6 = 1 + (?n - 7)" and e3: "?n - 4 = 2 + (?n - 6)"
    using assms by arith+
  have d1: "drop (?n - 7) g = drop 4 (drop (?n - 11) g)" using e1 by (simp only: drop_drop)
  have d2: "drop (?n - 6) g = drop 1 (drop (?n - 7) g)" using e2 by (simp only: drop_drop)
  have d3: "drop (?n - 4) g = drop 2 (drop (?n - 6) g)" using e3 by (simp only: drop_drop)
  have "drop (?n - 11) g = take 4 (drop (?n - 11) g) @ drop (?n - 7) g"
    by (simp only: d1 append_take_drop_id)
  also have "drop (?n - 7) g = take 1 (drop (?n - 7) g) @ drop (?n - 6) g"
    by (simp only: d2 append_take_drop_id)
  also have "drop (?n - 6) g = take 2 (drop (?n - 6) g) @ drop (?n - 4) g"
    by (simp only: d3 append_take_drop_id)
  finally show ?thesis by (simp only: s1 s2 s3)
qed

lemma slice_end_lengths:
  assumes "11 \<le> length g"
  shows "length (slice_end 11 7 g) = 4" "length (slice_end 7 6 g) = 1" "length (slice_end 6 4 g) = 2"
  using assms by (simp_all add: slice_end_def)

lemma single_append_eq_Cons:
  "length a = Suc 0 \<Longrightarrow> (a @ b = c # d) = (a = [c] \<and> b = d)"
  by (cases a) auto

lemma fnmatch_filter_iff:
  "fnmatch cc g ''DUSTMONITOR*.txt'' \<longleftrightarrow> (\<exists>mid. g = ''DUSTMONITOR'' @ mid @ ''.txt'')"
proof -
  have "glob cc (''DUSTMONITOR'' @ CHR ''*'' # ''.txt'') g = (\<exists>mid. g = ''DUSTMONITOR'' @ mid @ ''.txt'')"
    by (rule glob_prefix_star_suffix) (simp_all add: wild_def)
  then show ?thesis by (simp add: fnmatch_def)
qed

lemma fnmatch_period_iff:
  assumes g: "fnmatch cc g ''DUSTMONITOR*.txt''"
    and y: "length y = 4" "\<forall>c\<in>set y. \<not> wild c"
    and m: "length m = 2" "\<forall>c\<in>set m. \<not> wild c"
  shows "fnmatch cc g (period_pattern (y, m)) \<longleftrightarrow>
           22 \<le> length g \<and> slice_end 7 6 g = ''_'' \<and> year_month_of g = (y, m)"
proof -
  let ?t = "y @ ''_'' @ m @ ''.txt''"
  from g obtain mid where gm: "g = ''DUSTMONITOR'' @ mid @ ''.txt''"
    by (auto simp: fnmatch_filter_iff)
  have len: "11 \<le> length g" and pre: "take 11 g = ''DUSTMONITOR''"
    and suf: "drop (length g - 4) g = ''.txt''"
    by (simp_all add: gm)
  have pre': "take (length ''DUSTMONITOR'') g = ''DUSTMONITOR''" by (simp add: gm)
  have plain: "\<forall>c\<in>set ?t. \<not> wild c" using y m by (auto simp: wild_def)
  have "period_pattern (y, m) = ''DUSTMONITOR'' @ CHR ''*'' # ?t"
    by (simp add: period_pattern_def)
  then have "fnmatch cc g (period_pattern (y, m)) = (\<exists>mid. g = ''DUSTMONITOR'' @ mid @ ?t)"
    using glob_prefix_star_suffix [of "''DUSTMONITOR''" ?t cc g] plain
    by (simp add: fnmatch_def wild_def)
  also have "\<dots> = (length ''DUSTMONITOR'' + length ?t \<le> length g \<and>
      take (length ''DUSTMONITOR'') g = ''DUSTMONITOR'' \<and> drop (length g - length ?t) g = ?t)"
    by (rule infix_conv)
  also have "\<dots> = (22 \<le> length g \<and> drop (length g - 11) g = ?t)"
    using pre' y m by simp
  also have "\<dots> = (22 \<le> length g \<and> slice_end 7 6 g = ''_'' \<and> year_month_of g = (y, m))"
    using slice_end_lengths [OF len] y m suf
    by (auto simp add: slice_end_pieces [OF len] year_month_of_def single_append_eq_Cons)
  finally show ?thesis .
qed

lemma year_month_lengths:
  "11 \<le> length f \<Longrightarrow> length (fst (year_month_of f)) = 4 \<and> length (snd (year_month_of f)) = 2"
  by (simp add: year_month_of_def slice_end_lengths)

lemma fnmatch_period_well_named:
  assumes g: "fnmatch cc g ''DUSTMONITOR*.txt''" "well_named g" and f: "well_named f"
  shows "fnmatch cc g (period_pattern (year_month_of f)) \<longleftrightarrow> year_month_of g = year_month_of f"
proof -
  obtain y m where ym: "year_month_of f = (y, m)" by (cases "year_month_of f")
  have "11 \<le> length f" using f by (simp add: well_named_def)
  from year_month_lengths [OF this] ym have l: "length y = 4" "length m = 2" by simp_all
  have p: "\<forall>c\<in>set y. \<not> wild c" "\<forall>c\<in>set m. \<not> wild c"
    using f ym by (simp_all add: well_named_def)
  show ?thesis
    using fnmatch_period_iff [OF g(1) l(1) p(1) l(2) p(2)] g(2)
    by (simp add: ym well_named_def)
qed

lemma find_period:
  assumes "\<forall>g\<in>set fns. fnmatch cc g ''DUSTMONITOR*.txt'' \<and> well_named g" and "f \<in> set fns"
  shows "find (\<lambda>g. fnmatch cc g (period_pattern (year_month_of f))) fns
         = first_of_period fns (year_month_of f)"
  unfolding first_of_period_def
  using assms by (intro find_cong refl fnmatch_period_well_named) auto

lemma first_of_period_Some:
  assumes "f \<in> set fns"
  obtains x where "first_of_period fns (year_month_of f) = Some x" "x \<in> set fns"
    "year_month_of x = year_month_of f"
proof (cases "first_of_period fns (year_month_of f)")
  case None
  then show ?thesis using assms by (auto simp: first_of_period_def find_None_iff)
next
  case (Some x)
  then have "x \<in> set fns \<and> year_month_of x = year_month_of f"
    by (auto simp: first_of_period_def find_Some_iff)
  with Some that show ?thesis by blast
qed

lemma select_loop_char:
  assumes all: "\<forall>g\<in>set fns. fnmatch cc g ''DUSTMONITOR*.txt'' \<and> well_named g"
    and keys: "set keys \<subseteq> year_month_of ` set fns"
  shows "select_loop cc fs lp fns keys fname acc
         = Inr (acc @ stop_after (present fs lp) (map (\<lambda>k. the (first_of_period fns k)) keys))"
  using keys
proof (induction keys arbitrary: fname acc)
  case Nil
  show ?case by simp
next
  case (Cons k keys)
  from Cons.prems obtain f where f: "f \<in> set fns" "k = year_month_of f" by auto
  from first_of_period_Some [OF f(1)] obtain x
    where x: "first_of_period fns k = Some x" unfolding f(2) by blast
  have fnd: "find (\<lambda>g. fnmatch cc g (period_pattern k)) fns = Some x"
    using find_period [OF all f(1)] x by (simp add: f(2))
  have rest: "set keys \<subseteq> year_month_of ` set fns" using Cons.prems by simp
  show ?case
    by (simp add: fnd x Cons.IH [OF rest] present_def)
qed

lemma matching_filenames_match:
  "g \<in> set (matching_filenames cc fc) \<Longrightarrow> fnmatch cc g ''DUSTMONITOR*.txt''"
  by (simp add: matching_filenames_def)

lemma files_to_be_downloaded_char:
  assumes "\<forall>g\<in>set (matching_filenames cc fc). well_named g"
  shows "files_to_be_downloaded cc fs fc lp =
     (if matching_filenames cc fc = [] then Inr None
      else Inr (Some (stop_after (present fs lp)
        (map (\<lambda>k. the (first_of_period (matching_filenames cc fc) k))
           (rev (sort (map year_month_of (matching_filenames cc fc))))))))"
proof -
  let ?fns = "matching_filenames cc fc"
  have all: "\<forall>g\<in>set ?fns. fnmatch cc g ''DUSTMONITOR*.txt'' \<and> well_named g"
    using assms matching_filenames_match by blast
  have keys: "set (rev (sort (map year_month_of ?fns))) \<subseteq> year_month_of ` set ?fns"
    by simp
  show ?thesis
    by (simp add: files_to_be_downloaded_def Let_def select_loop_char [OF all keys])
qed

lemma stop_after_take: "stop_after P xs = take (length (stop_after P xs)) xs"
  by (induction xs) auto

lemma stop_after_nonempty: "xs \<noteq> [] \<Longrightarrow> stop_after P xs \<noteq> []"
  by (cases xs) auto

lemma stop_after_butlast: "x \<in> set (butlast (stop_after P xs)) \<Longrightarrow> \<not> P x"
  by (induction xs) (auto split: if_splits)

lemma stop_after_last: "stop_after P xs = xs \<or> P (last (stop_after P xs))"
proof (induction xs)
  case Nil
  show ?case by simp
next
  case (Cons a xs)
  show ?case
  proof (cases "P a")
    case True
    then show ?thesis by simp
  next
    case False
    show ?thesis
    proof (cases "xs = []")
      case True
      with False show ?thesis by simp
    next
      case ne: False
      then have "stop_after P xs \<noteq> []" by (rule stop_after_nonempty)
      with Cons.IH False show ?thesis by auto
    qed
  qed
qed

lemma stop_after_none: "\<forall>x\<in>set xs. \<not> P x \<Longrightarrow> stop_after P xs = xs"
  by (induction xs) auto

lemma desc_hd_greatest:
  "sorted_wrt (\<lambda>a b. b \<le> a) (kd :: ('a :: linorder) list) \<Longrightarrow> k \<in> set kd \<Longrightarrow> k \<le> hd kd"
  by (cases kd) auto

lemma desc_prefix_no_gap:
  fixes kd :: "('a :: linorder) list"
  assumes desc: "sorted_wrt (\<lambda>a b. b \<le> a) kd" and n: "0 < n" "n \<le> length kd"
    and k: "k \<in> set kd" "last (take n kd) \<le> k"
  shows "k \<in> set (take n kd)"
proof (rule ccontr)
  assume notin: "k \<notin> set (take n kd)"
  have "set kd = set (take n kd) \<union> set (drop n kd)"
    by (metis append_take_drop_id set_append)
  with k(1) notin have kin: "k \<in> set (drop n kd)" by blast
  have ne: "take n kd \<noteq> []" using n by auto
  then have lin: "last (take n kd) \<in> set (take n kd)" by (rule last_in_set)
  have "sorted_wrt (\<lambda>a b. b \<le> a) (take n kd @ drop n kd)" using desc by simp
  then have "\<forall>a\<in>set (take n kd). \<forall>b\<in>set (drop n kd). b \<le> a"
    by (simp only: sorted_wrt_append) blast
  with lin kin have "k \<le> last (take n kd)" by blast
  with k(2) have "k = last (take n kd)" by simp
  with lin notin show False by simp
qed

lemma desc_last_least:
  "sorted_wrt (\<lambda>a b. b \<le> a) (xs :: ('a :: linorder) list) \<Longrightarrow> k \<in> set xs \<Longrightarrow> last xs \<le> k"
proof (induction xs)
  case Nil
  then show ?case by simp
next
  case (Cons a xs)
  show ?case
  proof (cases "xs = []")
    case True
    with Cons.prems show ?thesis by simp
  next
    case False
    then have "last xs \<in> set xs" by (rule last_in_set)
    with Cons False show ?thesis by auto
  qed
qed

lemma newest_first_desc: "sorted_wrt (\<lambda>a b. b \<le> a) (newest_first fns)"
  by (simp add: newest_first_def sorted_wrt_rev)

lemma set_newest_first: "set (newest_first fns) = year_month_of ` set fns"
  by (simp add: newest_first_def)

lemma length_newest_first: "length (newest_first fns) = length fns"
  by (simp add: newest_first_def)

lemma first_of_period_key:
  assumes "k \<in> year_month_of ` set fns"
  obtains x where "first_of_period fns k = Some x" "x \<in> set fns" "year_month_of x = k"
proof -
  from assms obtain f where f: "f \<in> set fns" "k = year_month_of f" by auto
  from first_of_period_Some [OF f(1)] obtain x where
    "first_of_period fns k = Some x" "x \<in> set fns" "year_month_of x = k"
    unfolding f(2) by blast
  then show ?thesis by (rule that)
qed

lemma year_month_first:
  assumes "k \<in> year_month_of ` set fns"
  shows "year_month_of (the (first_of_period fns k)) = k"
  using first_of_period_key [OF assms] by (metis option.sel)

lemma map_year_month_first:
  assumes "set ks \<subseteq> year_month_of ` set fns"
  shows "map year_month_of (map (\<lambda>k. the (first_of_period fns k)) ks) = ks"
  using assms by (induction ks) (simp_all add: year_month_first)

lemma selected_shape:
  assumes wn: "\<forall>g\<in>set (matching_filenames cc fc). well_named g"
    and ne: "matching_filenames cc fc \<noteq> []"
  obtains xs where
    "files_to_be_downloaded cc fs fc lp = Inr (Some xs)"
    "xs = stop_after (present fs lp)
       (map (\<lambda>k. the (first_of_period (matching_filenames cc fc) k))
         (newest_first (matching_filenames cc fc)))"
    "xs \<noteq> []"
    "map year_month_of xs = take (length xs) (newest_first (matching_filenames cc fc))"
    "length xs \<le> length (matching_filenames cc fc)"
    "\<forall>x\<in>set xs. first_of_period (matching_filenames cc fc) (year_month_of x) = Some x"
proof -
  let ?fns = "matching_filenames cc fc"
  let ?F = "\<lambda>k. the (first_of_period ?fns k)"
  let ?all = "map ?F (newest_first ?fns)"
  let ?xs = "stop_after (present fs lp) ?all"
  have 1: "files_to_be_downloaded cc fs fc lp = Inr (Some ?xs)"
    using files_to_be_downloaded_char [OF wn] ne by (simp add: newest_first_def)
  have "length ?all = length ?fns" by (simp add: length_newest_first)
  with ne have allne: "?all \<noteq> []" by auto
  have 3: "?xs \<noteq> []" using allne by (rule stop_after_nonempty)
  have tk: "?xs = take (length ?xs) ?all" by (rule stop_after_take)
  have "map year_month_of ?xs = take (length ?xs) (map year_month_of ?all)"
    by (subst tk) (simp only: take_map)
  also have "map year_month_of ?all = newest_first ?fns"
    by (rule map_year_month_first) (simp add: set_newest_first)
  finally have 4: "map year_month_of ?xs = take (length ?xs) (newest_first ?fns)" .
  have "length ?xs \<le> length ?all" by (subst tk) simp
  then have 5: "length ?xs \<le> length ?fns" by (simp add: length_newest_first)
  have sub: "set ?xs \<subseteq> set ?all" by (subst tk) (rule set_take_subset)
  have 6: "\<forall>x\<in>set ?xs. first_of_period ?fns (year_month_of x) = Some x"
  proof
    fix x assume "x \<in> set ?xs"
    with sub have "x \<in> set ?all" ..
    then obtain k where k: "k \<in> year_month_of ` set ?fns" "x = ?F k"
      by (auto simp: set_newest_first)
    from first_of_period_key [OF k(1)] obtain x' where
      "first_of_period ?fns k = Some x'" "year_month_of x' = k" by blast
    with k(2) show "first_of_period ?fns (year_month_of x) = Some x" by simp
  qed
  show ?thesis by (rule that [OF 1 refl 3 4 5 6])
qed

text \<open>
  On a listing whose matching names are all well named the selection is the one the
  specification describes.  When every name of the listing that matches
  \<open>DUSTMONITOR*.txt\<close> is well named and there is at least one,
  \<open>files_to_be_downloaded\<close> returns a non-empty list of names of the listing.  Its
  first element is of the newest period; the periods go from newest to oldest; the list
  stops as soon as it has taken a name that exists locally (only its last element can
  exist locally, and if the last one does not, every period has been taken); no element
  is of a period older than the last one's, and every period of the listing that is not
  older than the last one's is taken.
\<close>

theorem selection_newest_until_present:
  assumes ne: "matching_filenames cc foldercontent \<noteq> []"
    and wn: "\<forall>fn\<in>set (matching_filenames cc foldercontent). well_named fn"
  shows "\<exists>xs. files_to_be_downloaded cc fs foldercontent local_path = Inr (Some xs)
     \<and> xs \<noteq> []
     \<and> set xs \<subseteq> set (matching_filenames cc foldercontent)
     \<and> (\<forall>fn\<in>set (matching_filenames cc foldercontent).
           year_month_of fn \<le> year_month_of (hd xs))
     \<and> sorted (rev (map year_month_of xs))
     \<and> (\<forall>x\<in>set (butlast xs). \<not> present fs local_path x)
     \<and> (present fs local_path (last xs)
          \<or> year_month_of ` set xs = year_month_of ` set (matching_filenames cc foldercontent))
     \<and> (\<forall>x\<in>set xs. year_month_of (last xs) \<le> year_month_of x)
     \<and> (\<forall>fn\<in>set (matching_filenames cc foldercontent).
           year_month_of (last xs) \<le> year_month_of fn \<longrightarrow>
           year_month_of fn \<in> year_month_of ` set xs)"
proof -
  let ?fns = "matching_filenames cc foldercontent"
  let ?kd = "newest_first ?fns"
  let ?all = "map (\<lambda>k. the (first_of_period ?fns k)) ?kd"
  from selected_shape [OF wn ne, of fs local_path] obtain xs where
    res: "files_to_be_downloaded cc fs foldercontent local_path = Inr (Some xs)"
    and xs: "xs = stop_after (present fs local_path) ?all"
    and xne: "xs \<noteq> []"
    and keys: "map year_month_of xs = take (length xs) ?kd"
    and len: "length xs \<le> length ?fns"
    and first: "\<forall>x\<in>set xs. first_of_period ?fns (year_month_of x) = Some x"
    by blast
  have desc: "sorted_wrt (\<lambda>a b. b \<le> a) ?kd" by (rule newest_first_desc)
  have n: "0 < length xs" "length xs \<le> length ?kd"
    using xne len by (simp_all add: length_newest_first)
  have kset: "year_month_of ` set xs = set (take (length xs) ?kd)"
    using keys by (metis set_map)
  have sub: "set xs \<subseteq> set ?fns"
  proof
    fix x assume "x \<in> set xs"
    with first have "first_of_period ?fns (year_month_of x) = Some x" by blast
    then show "x \<in> set ?fns" by (auto simp: first_of_period_def find_Some_iff)
  qed
  have hdk: "year_month_of (hd xs) = hd ?kd"
  proof -
    have "hd (map year_month_of xs) = hd (take (length xs) ?kd)" by (simp only: keys)
    then show ?thesis using xne n by (simp add: hd_map)
  qed
  have newest: "\<forall>fn\<in>set ?fns. year_month_of fn \<le> year_month_of (hd xs)"
  proof
    fix fn assume "fn \<in> set ?fns"
    then have "year_month_of fn \<in> set ?kd" by (simp add: set_newest_first)
    from desc_hd_greatest [OF desc this] show "year_month_of fn \<le> year_month_of (hd xs)"
      by (simp only: hdk)
  qed
  have "sorted_wrt (\<lambda>a b. b \<le> a) (take (length xs) ?kd)" using desc by (rule sorted_wrt_take)
  then have sorted: "sorted (rev (map year_month_of xs))"
    by (simp only: keys sorted_wrt_rev)
  have absent: "\<forall>x\<in>set (butlast xs). \<not> present fs local_path x"
    using stop_after_butlast [of _ "present fs local_path" ?all] by (simp only: xs) blast
  have lastk: "year_month_of (last xs) = last (take (length xs) ?kd)"
  proof -
    have "last (map year_month_of xs) = last (take (length xs) ?kd)" by (simp only: keys)
    then show ?thesis using xne by (simp add: last_map)
  qed
  have stop: "present fs local_path (last xs)
      \<or> year_month_of ` set xs = year_month_of ` set ?fns"
  proof -
    from stop_after_last [of "present fs local_path" ?all]
    have "xs = ?all \<or> present fs local_path (last xs)" by (simp only: xs)
    then show ?thesis
    proof
      assume "xs = ?all"
      then have "length xs = length ?kd" by simp
      then have "take (length xs) ?kd = ?kd" by simp
      then show ?thesis by (simp add: kset set_newest_first)
    next
      assume "present fs local_path (last xs)"
      then show ?thesis ..
    qed
  qed
  have older: "\<forall>x\<in>set xs. year_month_of (last xs) \<le> year_month_of x"
  proof
    fix x assume "x \<in> set xs"
    then have "year_month_of x \<in> set (take (length xs) ?kd)" using kset by blast
    from desc_last_least [OF \<open>sorted_wrt (\<lambda>a b. b \<le> a) (take (length xs) ?kd)\<close> this]
    show "year_month_of (last xs) \<le> year_month_of x" by (simp only: lastk)
  qed
  have nogap: "\<forall>fn\<in>set ?fns. year_month_of (last xs) \<le> year_month_of fn \<longrightarrow>
           year_month_of fn \<in> year_month_of ` set xs"
  proof (intro ballI impI)
    fix fn assume fn: "fn \<in> set ?fns" and le: "year_month_of (last xs) \<le> year_month_of fn"
    from fn have k: "year_month_of fn \<in> set ?kd" by (simp add: set_newest_first)
    from le have "last (take (length xs) ?kd) \<le> year_month_of fn" by (simp only: lastk)
    from desc_prefix_no_gap [OF desc n k this]
    show "year_month_of fn \<in> year_month_of ` set xs" by (simp only: kset)
  qed
  from res xne sub newest sorted absent stop older nogap show ?thesis by blast
qed

theorem selection_newest_until_present_witness:
  "list_all well_named (matching_filenames (\<lambda>_. None) example_listing) \<and>
   files_to_be_downloaded (\<lambda>_. None) example_local example_listing ''/data''
     = Inr (Some [''DUSTMONITOR_7_2024_03.txt'', ''DUSTMONITOR_7_2024_02.txt'',
                  ''DUSTMONITOR_7_2024_01.txt'']) \<and>
   (\<exists>xs. files_to_be_downloaded (\<lambda>_. None) example_local example_listing ''/data'' = Inr (Some xs)
      \<and> xs \<noteq> [] \<and> sorted (rev (map year_month_of xs))
      \<and> present example_local ''/data'' (last xs))"
proof -
  have ne: "matching_filenames (\<lambda>_. None) example_listing \<noteq> []" by code_simp
  have wn: "\<forall>fn\<in>set (matching_filenames (\<lambda>_. None) example_listing). well_named fn"
    by code_simp
  have ev: "files_to_be_downloaded (\<lambda>_. None) example_local example_listing ''/data''
     = Inr (Some [''DUSTMONITOR_7_2024_03.txt'', ''DUSTMONITOR_7_2024_02.txt'',
                  ''DUSTMONITOR_7_2024_01.txt''])"
    by code_simp
  have pr: "present example_local ''/data'' ''DUSTMONITOR_7_2024_01.txt''" by code_simp
  from selection_newest_until_present [OF ne wn, of example_local "''/data''"]
  obtain xs where xs: "files_to_be_downloaded (\<lambda>_. None) example_local example_listing ''/data'' = Inr (Some xs)"
    "xs \<noteq> []" "sorted (rev (map year_month_of xs))"
    by blast
  from xs(1) ev have eq: "xs = [''DUSTMONITOR_7_2024_03.txt'', ''DUSTMONITOR_7_2024_02.txt'',
                  ''DUSTMONITOR_7_2024_01.txt'']" by simp
  have "last xs = ''DUSTMONITOR_7_2024_01.txt''" by (simp add: eq)
  with pr have "present example_local ''/data'' (last xs)" by simp
  with xs wn ev show ?thesis by (simp add: list_all_iff)
qed

text \<open>
  C1.  The function does not return a list for every listing that has a matching name.
  When the name with the newest period key does not end in \<open>_YYYY_MM.txt\<close> (it is
  shorter than 22 characters or has no underscore between the places of the year and of
  the month, and so is every name that shares its key; no pattern character at those
  places), no name matches the pattern built from its key, the inner loop assigns
  nothing, and the outer loop reads \<open>fname\<close> before any assignment:
  \<open>UnboundLocalError\<close>.
\<close>

theorem stray_newest_name_raises:
  assumes fn: "fn \<in> set (matching_filenames cc foldercontent)"
    and newest: "\<forall>g\<in>set (matching_filenames cc foldercontent). year_month_of g \<le> year_month_of fn"
    and bad: "\<forall>g\<in>set (matching_filenames cc foldercontent).
                year_month_of g = year_month_of fn \<longrightarrow> length g < 22 \<or> slice_end 7 6 g \<noteq> ''_''"
    and plain: "\<forall>c\<in>set (fst (year_month_of fn) @ snd (year_month_of fn)). \<not> wild c"
  shows "files_to_be_downloaded cc fs foldercontent local_path = Inl (UnboundLocalError ''fname'')"
proof -
  let ?fns = "matching_filenames cc foldercontent"
  let ?kd = "newest_first ?fns"
  obtain y mo where ym: "year_month_of fn = (y, mo)" by (cases "year_month_of fn")
  from matching_filenames_match [OF fn] obtain mid where "fn = ''DUSTMONITOR'' @ mid @ ''.txt''"
    by (auto simp: fnmatch_filter_iff)
  then have "11 \<le> length fn" by simp
  from year_month_lengths [OF this] ym have l: "length y = 4" "length mo = 2" by simp_all
  from plain ym have p: "\<forall>c\<in>set y. \<not> wild c" "\<forall>c\<in>set mo. \<not> wild c" by simp_all
  have ne: "?fns \<noteq> []" using fn by auto
  have "length ?kd = length ?fns" by (rule length_newest_first)
  with ne have kne: "?kd \<noteq> []" by auto
  then obtain k ks where kd: "?kd = k # ks" by (cases ?kd) auto
  have "(y, mo) \<in> set ?kd" using fn ym by (force simp: set_newest_first)
  from desc_hd_greatest [OF newest_first_desc this] have ge: "(y, mo) \<le> k" by (simp add: kd)
  have "k \<in> set ?kd" by (simp add: kd)
  then obtain g where "g \<in> set ?fns" "k = year_month_of g" by (auto simp: set_newest_first)
  with newest ym have "k \<le> (y, mo)" by auto
  with ge have k: "k = (y, mo)" by simp
  have nomatch: "\<not> fnmatch cc g (period_pattern (y, mo))" if g: "g \<in> set ?fns" for g
  proof
    assume "fnmatch cc g (period_pattern (y, mo))"
    with fnmatch_period_iff [OF matching_filenames_match [OF g] l(1) p(1) l(2) p(2)]
    have "22 \<le> length g" "slice_end 7 6 g = ''_''" "year_month_of g = (y, mo)" by simp_all
    with bad g ym show False by auto
  qed
  then have f: "find (\<lambda>g. fnmatch cc g (period_pattern (y, mo))) ?fns = None"
    by (simp add: find_None_iff)
  have "rev (sort (map year_month_of ?fns)) = (y, mo) # ks"
    using kd k by (simp add: newest_first_def)
  then show ?thesis
    using ne f by (simp add: files_to_be_downloaded_def Let_def)
qed

theorem stray_newest_name_raises_witness:
  "files_to_be_downloaded (\<lambda>_. None) example_local stray_listing ''/data''
   = Inl (UnboundLocalError ''fname'')"
proof -
  have 1: "''DUSTMONITOR_backup.txt'' \<in> set (matching_filenames (\<lambda>_. None) stray_listing)"
    by code_simp
  have 2: "\<forall>g\<in>set (matching_filenames (\<lambda>_. None) stray_listing).
      year_month_of g \<le> year_month_of ''DUSTMONITOR_backup.txt''" by code_simp
  have 3: "\<forall>g\<in>set (matching_filenames (\<lambda>_. None) stray_listing).
      year_month_of g = year_month_of ''DUSTMONITOR_backup.txt'' \<longrightarrow>
      length g < 22 \<or> slice_end 7 6 g \<noteq> ''_''" by code_simp
  have 4: "\<forall>c\<in>set (fst (year_month_of ''DUSTMONITOR_backup.txt'')
      @ snd (year_month_of ''DUSTMONITOR_backup.txt'')). \<not> wild c" by code_simp
  from stray_newest_name_raises [OF 1 2 3 4] show ?thesis .
qed

text \<open>
  C3, as amended.  The period keys are sorted with their duplicates, one key per
  matching name, and walked from the newest: the periods of the returned list are a
  prefix of \<open>newest_first\<close>.  Every returned name is the first one, in listing order,
  of its period, and when no returned name exists locally the list has one entry per
  matching name, so a period that several names share is entered once for each of them,
  each time with its first name.
\<close>

theorem duplicate_periods_kept:
  assumes ne: "matching_filenames cc foldercontent \<noteq> []"
    and wn: "\<forall>fn\<in>set (matching_filenames cc foldercontent). well_named fn"
  shows "\<exists>xs. files_to_be_downloaded cc fs foldercontent local_path = Inr (Some xs)
     \<and> map year_month_of xs = take (length xs) (newest_first (matching_filenames cc foldercontent))
     \<and> (\<forall>x\<in>set xs. first_of_period (matching_filenames cc foldercontent) (year_month_of x) = Some x)
     \<and> ((\<forall>x\<in>set xs. \<not> present fs local_path x) \<longrightarrow>
          length xs = length (matching_filenames cc foldercontent))"
proof -
  let ?fns = "matching_filenames cc foldercontent"
  let ?all = "map (\<lambda>k. the (first_of_period ?fns k)) (newest_first ?fns)"
  from selected_shape [OF wn ne, of fs local_path] obtain xs where
    res: "files_to_be_downloaded cc fs foldercontent local_path = Inr (Some xs)"
    and xs: "xs = stop_after (present fs local_path) ?all"
    and xne: "xs \<noteq> []"
    and keys: "map year_month_of xs = take (length xs) (newest_first ?fns)"
    and first: "\<forall>x\<in>set xs. first_of_period ?fns (year_month_of x) = Some x"
    by blast
  have all: "(\<forall>x\<in>set xs. \<not> present fs local_path x) \<longrightarrow> length xs = length ?fns"
  proof
    assume none: "\<forall>x\<in>set xs. \<not> present fs local_path x"
    from xne have "last xs \<in> set xs" by (rule last_in_set)
    with none have "\<not> present fs local_path (last xs)" by blast
    moreover from stop_after_last [of "present fs local_path" ?all]
    have "xs = ?all \<or> present fs local_path (last xs)" by (simp only: xs)
    ultimately have "xs = ?all" by blast
    then have "length xs = length (newest_first ?fns)" by simp
    then show "length xs = length ?fns" by (simp only: length_newest_first)
  qed
  from res keys first all show ?thesis by blast
qed

theorem duplicate_periods_kept_witness:
  "list_all well_named (matching_filenames (\<lambda>_. None) duplicate_listing) \<and>
   (\<exists>xs. files_to_be_downloaded (\<lambda>_. None) example_local duplicate_listing ''/data'' = Inr (Some xs)
      \<and> map year_month_of xs = [(''2024'', ''03''), (''2024'', ''03''), (''2024'', ''02'')]
      \<and> length xs = length (matching_filenames (\<lambda>_. None) duplicate_listing))"
proof -
  have ne: "matching_filenames (\<lambda>_. None) duplicate_listing \<noteq> []" by code_simp
  have wn: "\<forall>fn\<in>set (matching_filenames (\<lambda>_. None) duplicate_listing). well_named fn"
    by code_simp
  have nf: "newest_first (matching_filenames (\<lambda>_. None) duplicate_listing)
      = [(''2024'', ''03''), (''2024'', ''03''), (''2024'', ''02'')]" by code_simp
  have np: "\<forall>x\<in>set (matching_filenames (\<lambda>_. None) duplicate_listing).
      \<not> present example_local ''/data'' x" by code_simp
  from duplicate_periods_kept [OF ne wn, of example_local "''/data''"]
  obtain xs where xs:
    "files_to_be_downloaded (\<lambda>_. None) example_local duplicate_listing ''/data'' = Inr (Some xs)"
    "map year_month_of xs = take (length xs) (newest_first (matching_filenames (\<lambda>_. None) duplicate_listing))"
    "\<forall>x\<in>set xs. first_of_period (matching_filenames (\<lambda>_. None) duplicate_listing) (year_month_of x) = Some x"
    "(\<forall>x\<in>set xs. \<not> present example_local ''/data'' x) \<longrightarrow>
          length xs = length (matching_filenames (\<lambda>_. None) duplicate_listing)"
    by blast
  have "\<forall>x\<in>set xs. x \<in> set (matching_filenames (\<lambda>_. None) duplicate_listing)"
    using xs(3) by (auto simp: first_of_period_def find_Some_iff)
  with np xs(4) have len: "length xs = length (matching_filenames (\<lambda>_. None) duplicate_listing)"
    by blast
  then have "length xs = length (newest_first (matching_filenames (\<lambda>_. None) duplicate_listing))"
    by (simp only: length_newest_first)
  with xs(2) have "map year_month_of xs = [(''2024'', ''03''), (''2024'', ''03''), (''2024'', ''02'')]"
    by (simp add: nf)
  with xs(1) len wn show ?thesis by (auto simp: list_all_iff)
qed

text \<open>
  The claim as stated fails: with two names of March 2024 in the listing the returned
  list has two entries for that period.
\<close>

theorem duplicate_period_counterexample:
  "files_to_be_downloaded (\<lambda>_. None) example_local duplicate_listing ''/data''
   = Inr (Some [''DUSTMONITOR_a_2024_03.txt'', ''DUSTMONITOR_a_2024_03.txt'',
                ''DUSTMONITOR_a_2024_02.txt''])"
  by code_simp

subsection \<open>No matching name, and names that carry no period\<close>

lemma select_loop_nonempty:
  "select_loop cc fs lp fns keys fname acc = Inr xs \<Longrightarrow> keys \<noteq> [] \<or> acc \<noteq> [] \<Longrightarrow> xs \<noteq> []"
proof (induction keys arbitrary: fname acc)
  case Nil
  then show ?case by simp
next
  case (Cons k keys)
  show ?case
  proof (cases "case find (\<lambda>fn. fnmatch cc fn (period_pattern k)) fns of
              Some fn \<Rightarrow> Some fn | None \<Rightarrow> fname")
    case None
    with Cons.prems show ?thesis by simp
  next
    case (Some f)
    show ?thesis
    proof (cases "path_exists fs (join_path lp f)")
      case True
      with Some Cons.prems show ?thesis by auto
    next
      case False
      with Some Cons.prems have "select_loop cc fs lp fns keys (Some f) (acc @ [f]) = Inr xs"
        by simp
      from Cons.IH [OF this] show ?thesis by simp
    qed
  qed
qed

lemma never_empty_list: "files_to_be_downloaded cc fs fc lp \<noteq> Inr (Some [])"
proof
  assume a: "files_to_be_downloaded cc fs fc lp = Inr (Some [])"
  let ?fns = "matching_filenames cc fc"
  from a have ne: "?fns \<noteq> []"
    by (auto simp: files_to_be_downloaded_def Let_def split: if_splits)
  with a have "select_loop cc fs lp ?fns (rev (sort (map year_month_of ?fns))) None [] = Inr []"
    by (auto simp: files_to_be_downloaded_def Let_def split: sum.splits)
  moreover have "rev (sort (map year_month_of ?fns)) \<noteq> []"
    using ne by (metis length_0_conv length_map length_rev length_sort)
  ultimately show False using select_loop_nonempty by blast
qed

lemma no_match_None:
  assumes "\<forall>line\<in>set fc. \<not> fnmatch cc (last_token line) ''DUSTMONITOR*.txt''"
  shows "files_to_be_downloaded cc fs fc lp = Inr None"
proof -
  have "matching_filenames cc fc = []"
    using assms by (auto simp: matching_filenames_def filter_empty_conv)
  then show ?thesis by (simp add: files_to_be_downloaded_def)
qed

text \<open>
  C7.  When no name of the listing matches \<open>DUSTMONITOR*.txt\<close> the function returns
  \<open>None\<close>, which is not the empty list (no call returns the empty list), and the
  cycle ends in the handler with the \<open>ValueError\<close> the loop raises for it, the file
  system unchanged.
\<close>

theorem no_matching_files_is_fatal:
  assumes "\<forall>line\<in>set foldercontent.
             \<not> fnmatch (bracket lib) (last_token line) ''DUSTMONITOR*.txt''"
    and "listing w = Inr foldercontent"
  shows "files_to_be_downloaded (bracket lib) fs foldercontent (TARGET_PATH cred) = Inr None
       \<and> files_to_be_downloaded cc fs foldercontent local_path \<noteq> Inr (Some [])
       \<and> poll_cycle lib cred w fs
           = (Printed (ValueError (''Data files not found in folder: '' @ DATADIR cred)), fs)"
  using no_match_None [OF assms(1), of fs "TARGET_PATH cred"] assms(2)
    never_empty_list [of cc fs foldercontent local_path]
  by (simp add: poll_cycle_def cycle_body_def)

theorem no_matching_files_is_fatal_witness:
  "files_to_be_downloaded (bracket example_library) example_local
       [''drwxr-xr-x 2 ftp ftp   0 Jan 01 00:00 logs''] (TARGET_PATH example_credentials) = Inr None
   \<and> fst (poll_cycle example_library example_credentials
        ((example_world 70)\<lparr>listing := Inr [''drwxr-xr-x 2 ftp ftp   0 Jan 01 00:00 logs'']\<rparr>)
        example_local)
     = Printed (ValueError ''Data files not found in folder: /fidas'')"
proof -
  have h: "\<forall>line\<in>set [''drwxr-xr-x 2 ftp ftp   0 Jan 01 00:00 logs''].
             \<not> fnmatch (bracket example_library) (last_token line) ''DUSTMONITOR*.txt''"
    by code_simp
  have l: "listing ((example_world 70)\<lparr>listing := Inr [''drwxr-xr-x 2 ftp ftp   0 Jan 01 00:00 logs'']\<rparr>)
      = Inr [''drwxr-xr-x 2 ftp ftp   0 Jan 01 00:00 logs'']" by simp
  have d: "DATADIR example_credentials = ''/fidas''" by code_simp
  from no_matching_files_is_fatal [OF h l, of example_local example_credentials]
  show ?thesis by (simp add: d)
qed

text \<open>
  C10.  The function is not total.  When the only name that matches
  \<open>DUSTMONITOR*.txt\<close> is shorter than 22 characters or has no underscore between the
  places of the year and of the month (and no pattern character at those places), no
  name matches the pattern built from its key, the inner loop assigns nothing, and the
  loop reads \<open>fname\<close> before any assignment: \<open>UnboundLocalError\<close>.
\<close>

theorem name_without_period_raises:
  assumes one: "matching_filenames cc foldercontent = [fn]"
    and bad: "length fn < 22 \<or> slice_end 7 6 fn \<noteq> ''_''"
    and plain: "\<forall>c\<in>set (fst (year_month_of fn) @ snd (year_month_of fn)). \<not> wild c"
  shows "files_to_be_downloaded cc fs foldercontent local_path = Inl (UnboundLocalError ''fname'')"
proof -
  have m: "fnmatch cc fn ''DUSTMONITOR*.txt''"
    by (rule matching_filenames_match [of _ cc foldercontent]) (simp add: one)
  then obtain mid where "fn = ''DUSTMONITOR'' @ mid @ ''.txt''"
    by (auto simp: fnmatch_filter_iff)
  then have len: "11 \<le> length fn" by simp
  obtain y mo where ym: "year_month_of fn = (y, mo)" by (cases "year_month_of fn")
  from year_month_lengths [OF len] ym have l: "length y = 4" "length mo = 2" by simp_all
  from plain ym have p: "\<forall>c\<in>set y. \<not> wild c" "\<forall>c\<in>set mo. \<not> wild c" by simp_all
  from fnmatch_period_iff [OF m l(1) p(1) l(2) p(2)] bad
  have "\<not> fnmatch cc fn (period_pattern (y, mo))" by auto
  then show ?thesis
    by (simp add: files_to_be_downloaded_def one ym)
qed

theorem name_without_period_raises_witness:
  "files_to_be_downloaded (\<lambda>_. None) example_local
     [''-rw-r--r-- 1 ftp ftp 0 Jan 01 00:00 DUSTMONITOR.txt''] ''/data''
   = Inl (UnboundLocalError ''fname'')"
proof -
  have 1: "matching_filenames (\<lambda>_. None) [''-rw-r--r-- 1 ftp ftp 0 Jan 01 00:00 DUSTMONITOR.txt'']
     = [''DUSTMONITOR.txt'']" by code_simp
  have 2: "length ''DUSTMONITOR.txt'' < 22 \<or> slice_end 7 6 ''DUSTMONITOR.txt'' \<noteq> ''_''" by simp
  have 3: "\<forall>c\<in>set (fst (year_month_of ''DUSTMONITOR.txt'') @ snd (year_month_of ''DUSTMONITOR.txt'')).
     \<not> wild c" by code_simp
  from name_without_period_raises [OF 1 2 3] show ?thesis .
qed

section \<open>Properties of the transfer and of the conversion\<close>

lemma retrbinary_complete:
  "retrbinary t msg remote written = (contents, None) \<Longrightarrow>
     last (written # contents) = written @ payload remote"
proof (induction remote arbitrary: t written contents)
  case Nil
  then show ?case by (simp add: payload_def)
next
  case (Cons x remote)
  obtain d ev where x: "x = (d, ev)" by (cases x)
  from Cons.prems x have le: "\<not> t < d" by (auto split: if_splits)
  from Cons.prems x le obtain block where ev: "ev = Inr block"
    by (cases ev) auto
  obtain cs r where rec: "retrbinary (t - d) msg remote (written @ block) = (cs, r)"
    by (cases "retrbinary (t - d) msg remote (written @ block)")
  from Cons.prems x le ev rec have c: "contents = (written @ block) # cs" and r: "r = None"
    by simp_all
  from Cons.IH [OF rec [unfolded r]] have "last ((written @ block) # cs) = (written @ block) @ payload remote" .
  then show ?case by (simp add: c x ev payload_def)
qed

lemma retrbinary_in_time:
  "no_server_error remote \<Longrightarrow> duration remote \<le> t \<Longrightarrow>
     snd (retrbinary t msg remote written) = None"
proof (induction remote arbitrary: t written)
  case Nil
  show ?case by simp
next
  case (Cons x remote)
  obtain d ev where x: "x = (d, ev)" by (cases x)
  from Cons.prems x obtain block where ev: "ev = Inr block"
    by (cases ev) (auto simp: no_server_error_def)
  from Cons.prems x have d: "d \<le> t" and rest: "duration remote \<le> t - d"
    and ok: "no_server_error remote"
    by (auto simp: duration_def no_server_error_def)
  from Cons.IH [OF ok rest, of "written @ block"]
  show ?case using d by (auto simp: x ev split: prod.splits)
qed

lemma retrbinary_too_slow:
  "no_server_error remote \<Longrightarrow> t < duration remote \<Longrightarrow>
     snd (retrbinary t msg remote written) = Some (FTPTimeoutError msg)"
proof (induction remote arbitrary: t written)
  case Nil
  then show ?case by (simp add: duration_def)
next
  case (Cons x remote)
  obtain d ev where x: "x = (d, ev)" by (cases x)
  from Cons.prems x obtain block where ev: "ev = Inr block"
    by (cases ev) (auto simp: no_server_error_def)
  from Cons.prems x have ok: "no_server_error remote" by (simp add: no_server_error_def)
  show ?case
  proof (cases "t < d")
    case True
    then show ?thesis by (simp add: x)
  next
    case False
    with Cons.prems x have "t - d < duration remote" by (auto simp: duration_def)
    from Cons.IH [OF ok this, of "written @ block"]
    show ?thesis using False by (auto simp: x ev split: prod.splits)
  qed
qed

lemma join_path_inject [simp]: "join_path lp a = join_path lp b \<longleftrightarrow> a = b"
  by (simp add: join_path_def)

text \<open>The run of a download, case by case.\<close>

lemma download_data_file_cases:
  assumes "filename \<noteq> ''temporary_dust_file.txt''"
  obtains (raised) contents e where
      "retrbinary MaxTimeAllowed ''Timeout while downloading data file.'' (ftpobj filename) []
         = (contents, Some e)"
      "download_data_file fs ftpobj lp filename
         = (fs # map (\<lambda>w. fs(join_path lp ''temporary_dust_file.txt'' \<mapsto> Bytes w)) ([] # contents),
            Some e)"
  | (renamed) contents where
      "retrbinary MaxTimeAllowed ''Timeout while downloading data file.'' (ftpobj filename) []
         = (contents, None)"
      "download_data_file fs ftpobj lp filename
         = (fs # map (\<lambda>w. fs(join_path lp ''temporary_dust_file.txt'' \<mapsto> Bytes w)) ([] # contents)
              @ [(fs(join_path lp filename \<mapsto> Bytes (payload (ftpobj filename))))
                   (join_path lp ''temporary_dust_file.txt'' := None)], None)"
proof -
  let ?tmp = "join_path lp ''temporary_dust_file.txt''"
  let ?final = "join_path lp filename"
  obtain contents r where rb:
    "retrbinary MaxTimeAllowed ''Timeout while downloading data file.'' (ftpobj filename) []
       = (contents, r)"
    by (cases "retrbinary MaxTimeAllowed ''Timeout while downloading data file.'' (ftpobj filename) []")
  have ne: "?tmp \<noteq> ?final" using assms(1) by simp
  show ?thesis
  proof (cases r)
    case (Some e)
    have "download_data_file fs ftpobj lp filename
         = (fs # map (\<lambda>w. fs(?tmp \<mapsto> Bytes w)) ([] # contents), Some e)"
      using rb Some
      by (cases e) (simp_all add: download_data_file_def get_ftp_file_def timeout_def)
    with rb Some raised show ?thesis by blast
  next
    case None
    from retrbinary_complete [OF rb [unfolded None]]
    have l: "last ([] # contents) = payload (ftpobj filename)" by simp
    have "last (map (\<lambda>w. fs(?tmp \<mapsto> Bytes w)) ([] # contents))
        = fs(?tmp \<mapsto> Bytes (payload (ftpobj filename)))"
      by (simp only: last_map [OF list.distinct(2)] l)
    then have "download_data_file fs ftpobj lp filename
         = (fs # map (\<lambda>w. fs(?tmp \<mapsto> Bytes w)) ([] # contents)
              @ [(fs(?final \<mapsto> Bytes (payload (ftpobj filename))))(?tmp := None)], None)"
      using rb None ne
      by (simp add: download_data_file_def get_ftp_file_def timeout_def os_rename_def fun_upd_twist)
    with rb None renamed show ?thesis by blast
  qed
qed

lemma download_published_whole:
  assumes "filename \<noteq> ''temporary_dust_file.txt''"
  shows "published_whole fs (download_data_file fs ftpobj lp filename) (join_path lp filename)
           (\<lambda>c. c = Bytes (payload (ftpobj filename)))"
proof -
  have ne: "join_path lp ''temporary_dust_file.txt'' \<noteq> join_path lp filename"
    using assms by simp
  from assms show ?thesis
  proof (cases rule: download_data_file_cases [where fs = fs and ftpobj = ftpobj and lp = lp])
    case (raised contents e)
    show ?thesis
      unfolding published_whole_def raised(2) using ne
      by (auto simp: last_map dest!: in_set_butlastD)
  next
    case (renamed contents)
    show ?thesis
      unfolding published_whole_def renamed(2) using ne
      by (auto simp: butlast_append)
  qed
qed

lemma write_variables_states:
  "write_variables lib d fs path steps written = (states, r) \<Longrightarrow>
     \<forall>s\<in>set states. \<exists>vs. s = fs(path \<mapsto> Dataset vs)"
proof (induction steps arbitrary: written states r)
  case Nil
  then show ?case by simp
next
  case (Cons st steps)
  show ?case
  proof (cases "variable lib d st")
    case (Inl e)
    with Cons.prems show ?thesis by simp
  next
    case (Inr v)
    obtain ss r' where rec: "write_variables lib d fs path steps (written @ [v]) = (ss, r')"
      by (cases "write_variables lib d fs path steps (written @ [v])")
    from Cons.prems Inr rec have st: "states = fs(path \<mapsto> Dataset (written @ [v])) # ss" by simp
    show ?thesis
    proof
      fix s assume "s \<in> set states"
      then have "s = fs(path \<mapsto> Dataset (written @ [v])) \<or> s \<in> set ss"
        unfolding st by (rule set_ConsD)
      then show "\<exists>vs. s = fs(path \<mapsto> Dataset vs)"
        using Cons.IH [OF rec] by blast
    qed
  qed
qed

lemma write_variables_complete:
  "write_variables lib d fs path steps written = (states, None) \<Longrightarrow>
     \<exists>vars. list_all2 (\<lambda>st v. variable lib d st = Inr v) steps vars \<and>
       last (fs(path \<mapsto> Dataset written) # states) = fs(path \<mapsto> Dataset (written @ vars))"
proof (induction steps arbitrary: written states)
  case Nil
  then have "states = []" by simp
  then have "list_all2 (\<lambda>st v. variable lib d st = Inr v) [] [] \<and>
       last (fs(path \<mapsto> Dataset written) # states) = fs(path \<mapsto> Dataset (written @ []))"
    by simp
  then show ?case by blast
next
  case (Cons st steps)
  show ?case
  proof (cases "variable lib d st")
    case (Inl e)
    with Cons.prems show ?thesis by simp
  next
    case (Inr v)
    obtain ss r' where rec: "write_variables lib d fs path steps (written @ [v]) = (ss, r')"
      by (cases "write_variables lib d fs path steps (written @ [v])")
    from Cons.prems Inr rec have st: "states = fs(path \<mapsto> Dataset (written @ [v])) # ss"
      and r': "r' = None" by simp_all
    from Cons.IH [OF rec [unfolded r']] obtain vars where
      vars: "list_all2 (\<lambda>st v. variable lib d st = Inr v) steps vars"
      "last (fs(path \<mapsto> Dataset (written @ [v])) # ss) = fs(path \<mapsto> Dataset ((written @ [v]) @ vars))"
      by blast
    have "list_all2 (\<lambda>st v. variable lib d st = Inr v) (st # steps) (v # vars)"
      using Inr vars(1) by simp
    moreover have "last (fs(path \<mapsto> Dataset written) # states) = fs(path \<mapsto> Dataset (written @ v # vars))"
      using vars(2) by (simp add: st)
    ultimately show ?thesis by blast
  qed
qed

lemma convert_published_whole:
  assumes "take (length filename - 4) filename \<noteq> ''temporary_dust_file''"
  shows "published_whole fs (convert_to_netCFD4 lib fs lp filename)
           (join_path lp (take (length filename - 4) filename @ ''.nc''))
           (\<lambda>c. \<exists>dustdata vars. read_table lib (fs (join_path lp filename)) = Inr dustdata \<and>
                  list_all2 (\<lambda>st v. variable lib dustdata st = Inr v) variables vars \<and>
                  c = Dataset vars)"
proof (cases "read_table lib (fs (join_path lp filename))")
  case (Inl e)
  then show ?thesis by (simp add: convert_to_netCFD4_def published_whole_def)
next
  case (Inr dustdata)
  let ?tmp = "join_path lp ''temporary_dust_file.nc''"
  let ?final = "join_path lp (take (length filename - 4) filename @ ''.nc'')"
  let ?created = "fs(?tmp \<mapsto> Dataset [])"
  have ne: "?tmp \<noteq> ?final" using assms by auto
  obtain states r where wv: "write_variables lib dustdata fs ?tmp variables [] = (states, r)"
    by (cases "write_variables lib dustdata fs ?tmp variables []")
  from write_variables_states [OF wv]
  have st: "\<forall>s\<in>set states. s ?final = fs ?final" using ne by auto
  have cr: "?created ?final = fs ?final" using ne by simp
  show ?thesis
  proof (cases r)
    case (Some e)
    have run: "convert_to_netCFD4 lib fs lp filename = (fs # ?created # states, Some e)"
      using Inr wv Some by (simp add: convert_to_netCFD4_def Let_def)
    have "\<forall>s\<in>set (fs # ?created # states). s ?final = fs ?final"
      using st cr by simp
    moreover have "last (fs # ?created # states) \<in> set (fs # ?created # states)"
      by (rule last_in_set) simp
    ultimately show ?thesis
      unfolding published_whole_def run
      by (auto simp del: last.simps butlast.simps set_simps dest: in_set_butlastD)
  next
    case None
    from write_variables_complete [OF wv [unfolded None]] obtain vars where
      vars: "list_all2 (\<lambda>st v. variable lib dustdata st = Inr v) variables vars"
      and l: "last (?created # states) = fs(?tmp \<mapsto> Dataset vars)"
      by auto
    let ?fs' = "(fs(?final \<mapsto> Dataset vars))(?tmp := None)"
    have rn: "os_rename (last (?created # states)) ?tmp ?final = Inr ?fs'"
      using ne by (simp only: l) (simp add: os_rename_def fun_upd_twist)
    have run: "convert_to_netCFD4 lib fs lp filename = (fs # ?created # states @ [?fs'], None)"
      using Inr wv None rn by (simp add: convert_to_netCFD4_def Let_def del: last.simps)
    have b: "butlast (fs # ?created # states @ [?fs']) = fs # ?created # states"
      by (simp add: butlast_append)
    have la: "last (fs # ?created # states @ [?fs']) = ?fs'" by simp
    have "\<forall>s\<in>set (fs # ?created # states). s ?final = fs ?final"
      using st cr by simp
    moreover have "?fs' ?final = Some (Dataset vars)" using ne by simp
    ultimately show ?thesis
      unfolding published_whole_def run fst_conv snd_conv b la
      using Inr vars by (simp del: set_simps)
  qed
qed

lemma select_loop_subset:
  "select_loop cc fs lp fns keys fname acc = Inr xs \<Longrightarrow> set acc \<subseteq> set fns \<Longrightarrow>
     (\<forall>f. fname = Some f \<longrightarrow> f \<in> set fns) \<Longrightarrow> set xs \<subseteq> set fns"
proof (induction keys arbitrary: fname acc)
  case Nil
  then show ?case by simp
next
  case (Cons k keys)
  let ?found = "find (\<lambda>fn. fnmatch cc fn (period_pattern k)) fns"
  show ?case
  proof (cases "case ?found of Some fn \<Rightarrow> Some fn | None \<Rightarrow> fname")
    case None
    with Cons.prems show ?thesis by simp
  next
    case (Some f)
    have f: "f \<in> set fns"
    proof (cases ?found)
      case None
      with Some Cons.prems(3) show ?thesis by simp
    next
      case (Some g)
      then have "g \<in> set fns" by (auto simp: find_Some_iff)
      with Some \<open>(case ?found of Some fn \<Rightarrow> Some fn | None \<Rightarrow> fname) = Some f\<close>
      show ?thesis by simp
    qed
    show ?thesis
    proof (cases "path_exists fs (join_path lp f)")
      case True
      with Some Cons.prems f show ?thesis by auto
    next
      case False
      with Some Cons.prems have "select_loop cc fs lp fns keys (Some f) (acc @ [f]) = Inr xs"
        by simp
      from Cons.IH [OF this] f Cons.prems(2) show ?thesis by simp
    qed
  qed
qed

lemma selected_names_match:
  assumes "files_to_be_downloaded cc fs fc lp = Inr (Some xs)" and "x \<in> set xs"
  shows "fnmatch cc x ''DUSTMONITOR*.txt''"
proof -
  let ?fns = "matching_filenames cc fc"
  from assms(1) have "select_loop cc fs lp ?fns (rev (sort (map year_month_of ?fns))) None [] = Inr xs"
    by (auto simp: files_to_be_downloaded_def Let_def split: if_splits sum.splits)
  from select_loop_subset [OF this] have "set xs \<subseteq> set ?fns" by simp
  with assms(2) show ?thesis by (auto simp: matching_filenames_def)
qed

lemma matching_name_not_temporary:
  assumes "fnmatch cc x ''DUSTMONITOR*.txt''"
  shows "x \<noteq> ''temporary_dust_file.txt''"
    and "take (length x - 4) x \<noteq> ''temporary_dust_file''"
proof -
  from assms obtain mid where x: "x = ''DUSTMONITOR'' @ mid @ ''.txt''"
    by (auto simp: fnmatch_filter_iff)
  show "x \<noteq> ''temporary_dust_file.txt''" by (simp add: x)
  show "take (length x - 4) x \<noteq> ''temporary_dust_file''" by (simp add: x)
qed

subsection \<open>The scenario, evaluated\<close>

lemma split_no_sep: "sep \<notin> set a \<Longrightarrow> split sep a = [a]"
  by (induction a) auto

lemma split_append_sep: "sep \<notin> set a \<Longrightarrow> split sep (a @ sep # b) = a # split sep b"
  by (induction a) auto

lemma join_Cons: "xs \<noteq> [] \<Longrightarrow> join sep (x # xs) = x @ sep # join sep xs"
  by (cases xs) auto

lemma split_join:
  "xs \<noteq> [] \<Longrightarrow> \<forall>x\<in>set xs. sep \<notin> set x \<Longrightarrow> split sep (join sep xs) = xs"
proof (induction xs)
  case Nil
  then show ?case by simp
next
  case (Cons x xs)
  show ?case
  proof (cases "xs = []")
    case True
    with Cons.prems show ?thesis by (simp add: split_no_sep)
  next
    case False
    with Cons show ?thesis by (simp add: join_Cons split_append_sep)
  qed
qed

lemma example_header_cells:
  "example_header \<noteq> [] \<and> list_all (\<lambda>x. CHR 0x09 \<notin> set x) example_header
   \<and> CHR 0x0A \<notin> set (join (CHR 0x09) example_header)
   \<and> join (CHR 0x09) example_header \<noteq> []"
  by code_simp

lemma example_row_cells:
  "example_row \<noteq> [] \<and> list_all (\<lambda>x. CHR 0x09 \<notin> set x) example_row
   \<and> CHR 0x0A \<notin> set (join (CHR 0x09) example_row)
   \<and> join (CHR 0x09) example_row \<noteq> []
   \<and> length example_row = length example_header"
  by code_simp

lemma example_columns:
  "map (\<lambda>j. (example_header ! j, typed [example_row ! j])) [0..<length example_header]
     = example_raw"
  by code_simp

lemma split_header_line: "split (CHR 0x09) (join (CHR 0x09) example_header) = example_header"
  using example_header_cells by (intro split_join) (simp_all add: list_all_iff)

lemma split_row_line: "split (CHR 0x09) (join (CHR 0x09) example_row) = example_row"
  using example_row_cells by (intro split_join) (simp_all add: list_all_iff)

lemma example_parse: "simple_table example_text = Inr example_raw"
proof -
  have l: "split (CHR 0x0A) example_text
      = [join (CHR 0x09) example_header, join (CHR 0x09) example_row, []]"
    using example_header_cells example_row_cells
    by (simp add: example_text_def header_line_def row_line_def split_append_sep)
  have f: "filter (\<lambda>l. l \<noteq> []) (split (CHR 0x0A) example_text)
      = [join (CHR 0x09) example_header, join (CHR 0x09) example_row]"
    using example_header_cells example_row_cells by (simp add: l)
  show ?thesis
    using example_row_cells
    by (simp add: simple_table_def f split_header_line split_row_line example_columns
         del: upt_Suc)
qed


lemma example_dates:
  "(case (map_of example_raw ''date'', map_of example_raw ''time'') of
      (Some d, Some t) \<Rightarrow>
        if table_rows example_raw = 0 then Inr example_raw
        else Inr ((''date_time'', simple_dates d t)
                  # filter (\<lambda>c. fst c \<noteq> ''date'' \<and> fst c \<noteq> ''time'') example_raw)
    | _ \<Rightarrow> Inl (ValueError ''Missing column provided to parse_dates''))
   = Inr example_table"
  by code_simp

lemma example_read: "read_table example_library (Some (Bytes example_text)) = Inr example_table"
proof -
  have p: "parse_table example_library = simple_table" "combine_dates example_library = simple_dates"
    by (simp_all add: example_library_def)
  show ?thesis
    unfolding read_table_def p by (simp only: content.case option.case example_parse sum.case example_dates)
qed

lemma example_variables:
  "list_all (\<lambda>st. case variable example_library example_table st of Inl e \<Rightarrow> False | Inr v \<Rightarrow> True)
     variables"
  by code_simp

subsection \<open>Runs that succeed\<close>

lemma write_variables_succeed:
  "list_all (\<lambda>st. case variable lib d st of Inl e \<Rightarrow> False | Inr v \<Rightarrow> True) steps \<Longrightarrow>
     snd (write_variables lib d fs path steps written) = None"
proof (induction steps arbitrary: written)
  case Nil
  show ?case by simp
next
  case (Cons st steps)
  from Cons.prems obtain v where v: "variable lib d st = Inr v"
    by (cases "variable lib d st") auto
  from Cons.prems have "list_all (\<lambda>st. case variable lib d st of Inl e \<Rightarrow> False | Inr v \<Rightarrow> True) steps"
    by simp
  from Cons.IH [OF this, of "written @ [v]"] show ?case
    by (auto simp: v split: prod.splits)
qed

lemma convert_succeeds:
  assumes "read_table lib (fs (join_path lp filename)) = Inr d"
    and "list_all (\<lambda>st. case variable lib d st of Inl e \<Rightarrow> False | Inr v \<Rightarrow> True) variables"
  shows "snd (convert_to_netCFD4 lib fs lp filename) = None"
proof -
  let ?tmp = "join_path lp ''temporary_dust_file.nc''"
  let ?created = "fs(?tmp \<mapsto> Dataset [])"
  obtain states r where wv: "write_variables lib d fs ?tmp variables [] = (states, r)"
    by (cases "write_variables lib d fs ?tmp variables []")
  from write_variables_succeed [OF assms(2), of fs ?tmp "[]"] wv have r: "r = None" by simp
  have "last (?created # states) \<in> set (?created # states)" by (rule last_in_set) simp
  with write_variables_states [OF wv]
  obtain vs where "last (?created # states) = fs(?tmp \<mapsto> Dataset vs)"
    by (metis set_ConsD)
  then have "\<exists>fs'. os_rename (last (?created # states)) ?tmp
      (join_path lp (take (length filename - 4) filename @ ''.nc'')) = Inr fs'"
    by (simp only: os_rename_def) simp
  then show ?thesis
    using assms(1) wv r by (auto simp: convert_to_netCFD4_def Let_def simp del: last.simps)
qed

lemma download_succeeds:
  assumes "filename \<noteq> ''temporary_dust_file.txt''"
    and "no_server_error (ftpobj filename)"
    and "duration (ftpobj filename) \<le> MaxTimeAllowed"
  shows "snd (download_data_file fs ftpobj lp filename) = None"
    and "last (fst (download_data_file fs ftpobj lp filename)) (join_path lp filename)
           = Some (Bytes (payload (ftpobj filename)))"
proof -
  have ne: "join_path lp ''temporary_dust_file.txt'' \<noteq> join_path lp filename"
    using assms(1) by simp
  from assms(1)
  have "snd (download_data_file fs ftpobj lp filename) = None
      \<and> last (fst (download_data_file fs ftpobj lp filename)) (join_path lp filename)
           = Some (Bytes (payload (ftpobj filename)))"
  proof (cases rule: download_data_file_cases [where fs = fs and ftpobj = ftpobj and lp = lp])
    case (raised contents e)
    from retrbinary_in_time [OF assms(2,3), of "''Timeout while downloading data file.''" "[]"]
      raised(1)
    show ?thesis by simp
  next
    case (renamed contents)
    show ?thesis unfolding renamed(2) using ne by simp
  qed
  then show "snd (download_data_file fs ftpobj lp filename) = None"
    and "last (fst (download_data_file fs ftpobj lp filename)) (join_path lp filename)
           = Some (Bytes (payload (ftpobj filename)))"
    by simp_all
qed

text \<open>A cycle that has one file to fetch, fetches it in time and converts it.\<close>

lemma cycle_succeeds:
  assumes "listing w = Inr foldercontent"
    and "files_to_be_downloaded (bracket lib) fs foldercontent (TARGET_PATH cred) = Inr (Some [fname])"
    and "no_server_error (retr w fname)"
    and "duration (retr w fname) \<le> MaxTimeAllowed"
    and "read_table lib (Some (Bytes (payload (retr w fname)))) = Inr d"
    and "list_all (\<lambda>st. case variable lib d st of Inl e \<Rightarrow> False | Inr v \<Rightarrow> True) variables"
  shows "fst (cycle_body lib cred w fs) = quit w"
proof -
  have "fname \<in> set [fname]" by simp
  from selected_names_match [OF assms(2) this]
  have nt: "fname \<noteq> ''temporary_dust_file.txt''" by (rule matching_name_not_temporary)
  obtain states r where dl: "download_data_file fs (retr w) (TARGET_PATH cred) fname = (states, r)"
    by (cases "download_data_file fs (retr w) (TARGET_PATH cred) fname")
  from download_succeeds [where ftpobj = "retr w" and filename = fname and fs = fs
      and lp = "TARGET_PATH cred", OF nt assms(3,4)] dl
  have r: "r = None"
    and l: "last states (join_path (TARGET_PATH cred) fname) = Some (Bytes (payload (retr w fname)))"
    by simp_all
  obtain states' r' where cv: "convert_to_netCFD4 lib (last states) (TARGET_PATH cred) fname = (states', r')"
    by (cases "convert_to_netCFD4 lib (last states) (TARGET_PATH cred) fname")
  from assms(5) have "read_table lib (last states (join_path (TARGET_PATH cred) fname)) = Inr d"
    by (simp only: l)
  from convert_succeeds [where fs = "last states" and lp = "TARGET_PATH cred"
      and filename = fname, OF this assms(6)] cv have r': "r' = None" by simp
  show ?thesis
    by (simp add: cycle_body_def assms(1,2) dl r cv r')
qed

lemma example_selection:
  "files_to_be_downloaded (bracket example_library) example_local
     [''-rw-r--r-- 1 ftp ftp 42 Mar 01 00:10 DUSTMONITOR_7_2024_03.txt'']
     (TARGET_PATH example_credentials)
   = Inr (Some [''DUSTMONITOR_7_2024_03.txt''])"
  by code_simp

lemma quick_server_transfer:
  "no_server_error (quick_server f)" "duration (quick_server f) \<le> MaxTimeAllowed"
  "payload (quick_server f) = example_text"
  by (simp_all add: no_server_error_def duration_def quick_server_def MaxTimeAllowed_def
        payload_def example_text_def)

lemma slow_server_transfer:
  "no_server_error (slow_server f)" "MaxTimeAllowed < duration (slow_server f)"
  "payload (slow_server f) = example_text"
  by (simp_all add: no_server_error_def duration_def slow_server_def MaxTimeAllowed_def
        payload_def example_text_def)

lemma example_cycle:
  "fst (cycle_body example_library example_credentials (example_world t) example_local) = None"
proof -
  have w: "listing (example_world t)
      = Inr [''-rw-r--r-- 1 ftp ftp 42 Mar 01 00:10 DUSTMONITOR_7_2024_03.txt'']"
    "retr (example_world t) = quick_server" "quit (example_world t) = None"
    by (simp_all add: example_world_def)
  have r: "read_table example_library
      (Some (Bytes (payload (retr (example_world t) ''DUSTMONITOR_7_2024_03.txt'')))) = Inr example_table"
    by (simp only: w quick_server_transfer example_read)
  have n: "no_server_error (retr (example_world t) ''DUSTMONITOR_7_2024_03.txt'')"
    and u: "duration (retr (example_world t) ''DUSTMONITOR_7_2024_03.txt'') \<le> MaxTimeAllowed"
    by (simp_all only: w quick_server_transfer)
  from cycle_succeeds [where w = "example_world t" and fname = "''DUSTMONITOR_7_2024_03.txt''",
      OF w(1) example_selection n u r example_variables]
  show ?thesis by (simp only: w)
qed

text \<open>
  C2.  For every name that \<open>files_to_be_downloaded\<close> returns, from whatever state of
  the file system: during a download the file \<open>local_path/filename\<close> is as it was
  until the last step; it changes only by the final rename, and then holds all the bytes
  of the transfer; after a download that raised it is as it was.  The same holds for the
  conversion and the file \<open>local_path/<filename without .txt>.nc\<close>: it changes only
  by the final rename, to a dataset that holds every variable of the table.
\<close>

theorem final_names_appear_only_whole:
  assumes "files_to_be_downloaded cc seen foldercontent local_path = Inr (Some to_be_downloaded)"
    and "filename \<in> set to_be_downloaded"
  shows "published_whole fs (download_data_file fs ftpobj local_path filename)
           (join_path local_path filename)
           (\<lambda>c. c = Bytes (payload (ftpobj filename)))
       \<and> published_whole fsc (convert_to_netCFD4 lib fsc local_path filename)
           (join_path local_path (take (length filename - 4) filename @ ''.nc''))
           (\<lambda>c. \<exists>dustdata vars.
                  read_table lib (fsc (join_path local_path filename)) = Inr dustdata \<and>
                  list_all2 (\<lambda>st v. variable lib dustdata st = Inr v) variables vars \<and>
                  c = Dataset vars)"
proof -
  from selected_names_match [OF assms] have m: "fnmatch cc filename ''DUSTMONITOR*.txt''" .
  from matching_name_not_temporary [OF m]
  show ?thesis by (intro conjI download_published_whole convert_published_whole)
qed

theorem final_names_appear_only_whole_witness:
  "published_whole example_local
     (download_data_file example_local slow_server ''/data'' ''DUSTMONITOR_7_2024_02.txt'')
     ''/data/DUSTMONITOR_7_2024_02.txt'' (\<lambda>c. c = Bytes example_text)
   \<and> snd (download_data_file example_local slow_server ''/data'' ''DUSTMONITOR_7_2024_02.txt'')
       = Some (FTPTimeoutError ''Timeout while downloading data file.'')
   \<and> snd (convert_to_netCFD4 example_library example_local ''/data'' ''DUSTMONITOR_7_2024_01.txt'')
       = None
   \<and> published_whole example_local
       (convert_to_netCFD4 example_library example_local ''/data'' ''DUSTMONITOR_7_2024_01.txt'')
       ''/data/DUSTMONITOR_7_2024_01.nc''
       (\<lambda>c. \<exists>vars. list_all2 (\<lambda>st v. variable example_library example_table st = Inr v)
                variables vars \<and> c = Dataset vars)"
proof -
  have sel: "files_to_be_downloaded (\<lambda>_. None) example_local example_listing ''/data''
     = Inr (Some [''DUSTMONITOR_7_2024_03.txt'', ''DUSTMONITOR_7_2024_02.txt'',
                  ''DUSTMONITOR_7_2024_01.txt''])"
    by code_simp
  have a: "snd (download_data_file example_local slow_server ''/data'' ''DUSTMONITOR_7_2024_02.txt'')
       = Some (FTPTimeoutError ''Timeout while downloading data file.'')"
    by code_simp
  have j: "join_path ''/data'' ''DUSTMONITOR_7_2024_02.txt'' = ''/data/DUSTMONITOR_7_2024_02.txt''"
    "join_path ''/data'' ''DUSTMONITOR_7_2024_01.txt'' = ''/data/DUSTMONITOR_7_2024_01.txt''"
    "join_path ''/data'' (take (length ''DUSTMONITOR_7_2024_01.txt'' - 4) ''DUSTMONITOR_7_2024_01.txt'' @ ''.nc'')
       = ''/data/DUSTMONITOR_7_2024_01.nc''"
    by (simp_all add: join_path_def)
  have rt: "read_table example_library (example_local (join_path ''/data'' ''DUSTMONITOR_7_2024_01.txt''))
      = Inr example_table"
    by (simp only: j(2)) (simp add: example_local_def example_read)
  have rt': "read_table example_library (example_local ''/data/DUSTMONITOR_7_2024_01.txt'')
      = Inr example_table"
    by (simp add: example_local_def example_read)
  from convert_succeeds [where fs = example_local and lp = "''/data''"
      and filename = "''DUSTMONITOR_7_2024_01.txt''", OF rt example_variables]
  have b: "snd (convert_to_netCFD4 example_library example_local ''/data'' ''DUSTMONITOR_7_2024_01.txt'')
       = None" .
  have m2: "''DUSTMONITOR_7_2024_02.txt'' \<in> set [''DUSTMONITOR_7_2024_03.txt'', ''DUSTMONITOR_7_2024_02.txt'',
                  ''DUSTMONITOR_7_2024_01.txt'']" by simp
  have m1: "''DUSTMONITOR_7_2024_01.txt'' \<in> set [''DUSTMONITOR_7_2024_03.txt'', ''DUSTMONITOR_7_2024_02.txt'',
                  ''DUSTMONITOR_7_2024_01.txt'']" by simp
  from final_names_appear_only_whole [OF sel m2, where fs = example_local
      and ftpobj = slow_server and fsc = example_local and lib = example_library, THEN conjunct1]
  have d: "published_whole example_local
     (download_data_file example_local slow_server ''/data'' ''DUSTMONITOR_7_2024_02.txt'')
     ''/data/DUSTMONITOR_7_2024_02.txt'' (\<lambda>c. c = Bytes example_text)"
    by (simp only: slow_server_transfer j)
  from final_names_appear_only_whole [OF sel m1, where fs = example_local
      and ftpobj = slow_server and fsc = example_local and lib = example_library, THEN conjunct2]
  have c: "published_whole example_local
       (convert_to_netCFD4 example_library example_local ''/data'' ''DUSTMONITOR_7_2024_01.txt'')
       ''/data/DUSTMONITOR_7_2024_01.nc''
       (\<lambda>c. \<exists>vars. list_all2 (\<lambda>st v. variable example_library example_table st = Inr v)
                variables vars \<and> c = Dataset vars)"
    by (simp only: j rt') simp
  from d a b c show ?thesis by simp
qed

text \<open>
  C6, as amended.  For a name that matches \<open>DUSTMONITOR*.txt\<close> and a transfer during
  which the server reports no error: when the transfer needs more than
  \<open>MaxTimeAllowed\<close> seconds, \<open>download_data_file\<close> raises \<open>FTPTimeoutError\<close>, the
  final name is left as it was before the call (absent only if it was absent), and the
  temporary file is left behind; otherwise the call returns, the final name holds the
  whole transfer and the temporary file is gone.
\<close>

theorem fetch_under_deadline:
  assumes "fnmatch cc filename ''DUSTMONITOR*.txt''"
    and "no_server_error (ftpobj filename)"
  shows "(MaxTimeAllowed < duration (ftpobj filename) \<longrightarrow>
            snd (download_data_file fs ftpobj local_path filename)
              = Some (FTPTimeoutError ''Timeout while downloading data file.'')
          \<and> last (fst (download_data_file fs ftpobj local_path filename))
               (join_path local_path filename) = fs (join_path local_path filename)
          \<and> path_exists (last (fst (download_data_file fs ftpobj local_path filename)))
               (join_path local_path ''temporary_dust_file.txt''))
       \<and> (duration (ftpobj filename) \<le> MaxTimeAllowed \<longrightarrow>
            snd (download_data_file fs ftpobj local_path filename) = None
          \<and> last (fst (download_data_file fs ftpobj local_path filename))
               (join_path local_path filename) = Some (Bytes (payload (ftpobj filename)))
          \<and> \<not> path_exists (last (fst (download_data_file fs ftpobj local_path filename)))
               (join_path local_path ''temporary_dust_file.txt''))"
proof -
  let ?msg = "''Timeout while downloading data file.''"
  let ?tmp = "join_path local_path ''temporary_dust_file.txt''"
  let ?final = "join_path local_path filename"
  from matching_name_not_temporary(1) [OF assms(1)]
  have nt: "filename \<noteq> ''temporary_dust_file.txt''" .
  then have ne: "?tmp \<noteq> ?final" by simp
  from nt show ?thesis
  proof (cases rule: download_data_file_cases [where fs = fs and ftpobj = ftpobj and lp = local_path])
    case (raised contents e)
    have late: "MaxTimeAllowed < duration (ftpobj filename)"
    proof (rule ccontr)
      assume "\<not> MaxTimeAllowed < duration (ftpobj filename)"
      then have "duration (ftpobj filename) \<le> MaxTimeAllowed" by simp
      from retrbinary_in_time [OF assms(2) this, of ?msg "[]"] raised(1)
      show False by simp
    qed
    from retrbinary_too_slow [OF assms(2) late, of ?msg "[]"] raised(1)
    have e: "e = FTPTimeoutError ?msg" by simp
    show ?thesis
      unfolding raised(2) using late ne
      by (simp add: e last_map path_exists_def)
  next
    case (renamed contents)
    have intime: "duration (ftpobj filename) \<le> MaxTimeAllowed"
    proof (rule ccontr)
      assume "\<not> duration (ftpobj filename) \<le> MaxTimeAllowed"
      then have "MaxTimeAllowed < duration (ftpobj filename)" by simp
      from retrbinary_too_slow [OF assms(2) this, of ?msg "[]"] renamed(1)
      show False by simp
    qed
    show ?thesis
      unfolding renamed(2) using intime ne
      by (simp add: path_exists_def)
  qed
qed

theorem fetch_under_deadline_witness:
  "snd (download_data_file example_local slow_server ''/data'' ''DUSTMONITOR_7_2024_02.txt'')
     = Some (FTPTimeoutError ''Timeout while downloading data file.'')
   \<and> \<not> path_exists (last (fst (download_data_file example_local slow_server ''/data''
          ''DUSTMONITOR_7_2024_02.txt''))) ''/data/DUSTMONITOR_7_2024_02.txt''
   \<and> path_exists (last (fst (download_data_file example_local slow_server ''/data''
          ''DUSTMONITOR_7_2024_02.txt''))) ''/data/temporary_dust_file.txt''
   \<and> snd (download_data_file example_local quick_server ''/data'' ''DUSTMONITOR_7_2024_02.txt'')
     = None
   \<and> last (fst (download_data_file example_local quick_server ''/data''
          ''DUSTMONITOR_7_2024_02.txt'')) ''/data/DUSTMONITOR_7_2024_02.txt''
     = Some (Bytes example_text)
   \<and> \<not> path_exists (last (fst (download_data_file example_local quick_server ''/data''
          ''DUSTMONITOR_7_2024_02.txt''))) ''/data/temporary_dust_file.txt''"
proof -
  have m: "fnmatch (\<lambda>_. None) ''DUSTMONITOR_7_2024_02.txt'' ''DUSTMONITOR*.txt''" by code_simp
  have s: "no_server_error (slow_server ''DUSTMONITOR_7_2024_02.txt'')" by code_simp
  have q: "no_server_error (quick_server ''DUSTMONITOR_7_2024_02.txt'')" by code_simp
  have ds: "MaxTimeAllowed < duration (slow_server ''DUSTMONITOR_7_2024_02.txt'')" by code_simp
  have dq: "duration (quick_server ''DUSTMONITOR_7_2024_02.txt'') \<le> MaxTimeAllowed" by code_simp
  have p: "payload (quick_server ''DUSTMONITOR_7_2024_02.txt'') = example_text" by code_simp
  have j: "join_path ''/data'' ''DUSTMONITOR_7_2024_02.txt'' = ''/data/DUSTMONITOR_7_2024_02.txt''"
    "join_path ''/data'' ''temporary_dust_file.txt'' = ''/data/temporary_dust_file.txt''"
    by code_simp+
  have a: "example_local ''/data/DUSTMONITOR_7_2024_02.txt'' = None" by code_simp
  from fetch_under_deadline [where ftpobj = slow_server and fs = example_local
      and local_path = "''/data''", OF m s, THEN conjunct1, THEN mp, OF ds]
  have 1: "snd (download_data_file example_local slow_server ''/data'' ''DUSTMONITOR_7_2024_02.txt'')
     = Some (FTPTimeoutError ''Timeout while downloading data file.'')"
    and 2: "last (fst (download_data_file example_local slow_server ''/data''
          ''DUSTMONITOR_7_2024_02.txt'')) ''/data/DUSTMONITOR_7_2024_02.txt'' = None"
    and 3: "path_exists (last (fst (download_data_file example_local slow_server ''/data''
          ''DUSTMONITOR_7_2024_02.txt''))) ''/data/temporary_dust_file.txt''"
    by (simp_all only: j a)
  from fetch_under_deadline [where ftpobj = quick_server and fs = example_local
      and local_path = "''/data''", OF m q, THEN conjunct2, THEN mp, OF dq]
  have 4: "snd (download_data_file example_local quick_server ''/data'' ''DUSTMONITOR_7_2024_02.txt'')
     = None"
    and 5: "last (fst (download_data_file example_local quick_server ''/data''
          ''DUSTMONITOR_7_2024_02.txt'')) ''/data/DUSTMONITOR_7_2024_02.txt''
     = Some (Bytes example_text)"
    and 6: "\<not> path_exists (last (fst (download_data_file example_local quick_server ''/data''
          ''DUSTMONITOR_7_2024_02.txt''))) ''/data/temporary_dust_file.txt''"
    by (simp_all only: j p simp_thms)
  from 1 2 3 4 5 6 show ?thesis by (simp add: path_exists_def)
qed

text \<open>
  The claim as stated fails: the file of the current month is fetched again in every
  cycle, and after a timeout of that fetch the final name is still there, with its
  older content.
\<close>

theorem timeout_keeps_older_copy_counterexample:
  "snd (download_data_file example_local slow_server ''/data'' ''DUSTMONITOR_7_2024_01.txt'')
     = Some (FTPTimeoutError ''Timeout while downloading data file.'')
   \<and> path_exists (last (fst (download_data_file example_local slow_server ''/data''
          ''DUSTMONITOR_7_2024_01.txt''))) ''/data/DUSTMONITOR_7_2024_01.txt''"
  by code_simp

section \<open>Properties of the main loop\<close>

text \<open>
  C4.  After a cycle whose body raised nothing the loop calls
  \<open>sleep(DownloadInterval - elapsed_time)\<close>.  When the cycle took no longer than
  the interval it sleeps for the rest of it, which is the
  \<open>max(0, DownloadInterval - elapsed_time)\<close> of the specification.  When the cycle
  overran, the argument is negative and \<open>sleep\<close> raises \<open>ValueError\<close>, which
  the handler prints: the cycle does not end in a sleep of zero seconds.
\<close>

theorem overrun_raises_instead_of_sleeping:
  assumes "fst (cycle_body lib cred w fs) = None"
  shows "(elapsed_time w \<le> real DownloadInterval \<longrightarrow>
            fst (poll_cycle lib cred w fs) = Slept (max 0 (real DownloadInterval - elapsed_time w)))
       \<and> (real DownloadInterval < elapsed_time w \<longrightarrow>
            fst (poll_cycle lib cred w fs) = Printed (ValueError ''sleep length must be non-negative''))"
  using assms by (cases "cycle_body lib cred w fs") (simp add: poll_cycle_def sleep_def)

theorem overrun_raises_instead_of_sleeping_witness:
  "fst (cycle_body example_library example_credentials (example_world 70) example_local) = None
   \<and> fst (poll_cycle example_library example_credentials (example_world 70) example_local)
       = Slept 530
   \<and> fst (cycle_body example_library example_credentials (example_world 700) example_local) = None
   \<and> real DownloadInterval - elapsed_time (example_world 700) = - 100
   \<and> fst (poll_cycle example_library example_credentials (example_world 700) example_local)
       = Printed (ValueError ''sleep length must be non-negative'')"
proof -
  have e: "elapsed_time (example_world 70) = 70" "elapsed_time (example_world 700) = 700"
    by (simp_all add: example_world_def)
  have d: "real DownloadInterval = 600" by (simp add: DownloadInterval_def)
  have 1: "elapsed_time (example_world 70) \<le> real DownloadInterval" by (simp add: e d)
  have 2: "real DownloadInterval < elapsed_time (example_world 700)" by (simp add: e d)
  from overrun_raises_instead_of_sleeping [OF example_cycle, THEN conjunct1, THEN mp, OF 1]
  have a: "fst (poll_cycle example_library example_credentials (example_world 70) example_local)
       = Slept 530" by (simp add: e d)
  from overrun_raises_instead_of_sleeping [OF example_cycle, THEN conjunct2, THEN mp, OF 2]
  have b: "fst (poll_cycle example_library example_credentials (example_world 700) example_local)
       = Printed (ValueError ''sleep length must be non-negative'')" .
  from a b example_cycle show ?thesis by (simp add: e d)
qed

text \<open>
  C5.  A cycle that fails ends in the handler and never reaches \<open>sleep\<close>: against a
  server that refuses the connection in every cycle the loop runs one cycle after the
  other, each of which prints the error and none of which sleeps.
\<close>

theorem failing_remote_is_polled_without_pause:
  assumes "\<forall>w\<in>set ws. \<exists>e. listing w = Inl e"
  shows "poll_loop lib cred ws fs = map (\<lambda>w. Printed (projl (listing w))) ws"
  using assms
proof (induction ws arbitrary: fs)
  case Nil
  show ?case by simp
next
  case (Cons w ws)
  then obtain e where e: "listing w = Inl e" by auto
  have "poll_cycle lib cred w fs = (Printed e, fs)"
    by (simp add: poll_cycle_def cycle_body_def e)
  with Cons e show ?case by simp
qed

theorem failing_remote_is_polled_without_pause_witness:
  "poll_loop example_library example_credentials
     [failing_world, failing_world, failing_world] example_local
   = [Printed (LibraryError ''ConnectionRefusedError''),
      Printed (LibraryError ''ConnectionRefusedError''),
      Printed (LibraryError ''ConnectionRefusedError'')]"
proof -
  have l: "listing failing_world = Inl (LibraryError ''ConnectionRefusedError'')"
    by (simp add: failing_world_def)
  then have "\<forall>w\<in>set [failing_world, failing_world, failing_world]. \<exists>e. listing w = Inl e"
    by simp
  from failing_remote_is_polled_without_pause [OF this, of example_library example_credentials example_local]
  show ?thesis by (simp add: l)
qed

section \<open>Properties of the converted variables\<close>

lemma dot_error_weights:
  assumes "length row = 8"
  shows "dot row error_weights = word_of_int (\<Sum>j<8. sint (row ! j) * 2 ^ j)"
proof -
  from assms obtain a b c d e f g h where row: "row = [a, b, c, d, e, f, g, h]"
    by (auto simp: length_Suc_conv eval_nat_numeral)
  have "(\<Sum>j<8. sint (row ! j) * 2 ^ j)
      = sint a + sint b * 2 + sint c * 4 + sint d * 8 + sint e * 16 + sint f * 32
        + sint g * 64 + sint h * 128"
    by (simp add: row eval_nat_numeral)
  then show ?thesis
    by (simp add: row dot_def error_weights_def word_of_int_hom_syms algebra_simps)
qed

lemma errors_value:
  assumes "length row = 8"
  shows "uint (ucast (dot row error_weights) :: 8 word) = (\<Sum>j<8. sint (row ! j) * 2 ^ j) mod 256"
proof -
  have down: "is_down (ucast :: 64 word \<Rightarrow> 8 word)" by (simp add: is_down)
  have e: "(ucast (dot row error_weights) :: 8 word) = word_of_int (\<Sum>j<8. sint (row ! j) * 2 ^ j)"
    by (simp only: dot_error_weights [OF assms] ucast_down_wi [OF down])
  show ?thesis unfolding e uint_word_of_int by simp
qed

lemma weighted_sum:
  assumes "length vs = 8"
  shows "weighted vs = (\<Sum>j<8. vs ! j * 2 ^ j)"
proof -
  from assms obtain a b c d e f g h where vs: "vs = [a, b, c, d, e, f, g, h]"
    by (auto simp: length_Suc_conv eval_nat_numeral)
  show ?thesis by (simp add: vs weighted_def eval_nat_numeral algebra_simps)
qed

lemma flags_sum_small:
  fixes v :: "nat \<Rightarrow> int"
  assumes "\<forall>j<8. v j = 0 \<or> v j = 1"
  shows "0 \<le> (\<Sum>j<8. v j * 2 ^ j) \<and> (\<Sum>j<8. v j * 2 ^ j) < 256"
proof -
  have b: "\<And>j. j < 8 \<Longrightarrow> 0 \<le> v j \<and> v j \<le> 1"
    using assms by auto
  have "0 \<le> (\<Sum>j<8. v j * 2 ^ j)"
    by (rule sum_nonneg) (use b in auto)
  moreover have "(\<Sum>j<8. v j * 2 ^ j) \<le> (\<Sum>j<(8::nat). (1::int) * 2 ^ j)"
    by (rule sum_mono) (use b in \<open>auto intro: mult_right_mono\<close>)
  moreover have "(\<Sum>j<(8::nat). (1::int) * 2 ^ j) = 255" by (simp add: eval_nat_numeral)
  ultimately show ?thesis by simp
qed

lemma transpose_same_length:
  assumes "cols \<noteq> []" and "\<forall>c\<in>set cols. length c = n"
  shows "length (transpose cols) = n"
    and "i < n \<Longrightarrow> transpose cols ! i = map (\<lambda>c. c ! i) cols"
proof -
  have r: "transpose cols = map (\<lambda>i. map (\<lambda>j. cols ! j ! i) [0..<length cols]) [0..<n]"
    by (rule transpose_rectangle) (use assms in auto)
  show "length (transpose cols) = n" by (simp add: r)
  show "transpose cols ! i = map (\<lambda>c. c ! i) cols" if "i < n"
  proof -
    have "transpose cols ! i = map (\<lambda>j. cols ! j ! i) [0..<length cols]"
      using that by (simp add: r)
    also have "\<dots> = map (\<lambda>c. c ! i) (map ((!) cols) [0..<length cols])" by simp
    also have "\<dots> = map (\<lambda>c. c ! i) cols" by (simp only: map_nth)
    finally show ?thesis .
  qed
qed

lemma those_map_all:
  "\<forall>x\<in>set xs. f x \<noteq> None \<Longrightarrow> those (map f xs) = Some (map (\<lambda>x. the (f x)) xs)"
  by (induction xs) auto

lemma those_map_None:
  "x \<in> set xs \<Longrightarrow> f x = None \<Longrightarrow> those (map f xs) = None"
  by (induction xs) (auto split: option.splits)

lemma those_all: "\<forall>x\<in>set xs. x \<noteq> None \<Longrightarrow> those xs = Some (map the xs)"
  using those_map_all [of xs "\<lambda>x. x"] by simp

text \<open>A row of flags that are 0 or 1.\<close>

lemma boolean_row:
  assumes "length row = 8" and "\<forall>j<8. row ! j = Some 0 \<or> row ! j = Some 1"
  shows "exact row" and "uint (packed row) = (\<Sum>j<8. the (row ! j) * 2 ^ j)"
proof -
  have nn: "\<forall>x\<in>set row. x \<noteq> None"
  proof
    fix x assume "x \<in> set row"
    then obtain j where "j < 8" "x = row ! j"
      using assms(1) by (auto simp: in_set_conv_nth)
    with assms(2) show "x \<noteq> None" by auto
  qed
  have th: "those row = Some (map the row)" using nn by (rule those_all)
  have l: "length (map the row) = 8" using assms(1) by simp
  have s: "(\<Sum>j<8. map the row ! j * 2 ^ j) = (\<Sum>j<8. the (row ! j) * 2 ^ j)"
    by (rule sum.cong) (simp_all add: assms(1))
  have w: "weighted (map the row) = (\<Sum>j<8. the (row ! j) * 2 ^ j)"
    by (simp only: weighted_sum [OF l] s)
  have v: "\<forall>j<8. the (row ! j) = 0 \<or> the (row ! j) = 1"
    using assms(2) by auto
  note small = flags_sum_small [OF v]
  have b: "\<forall>v\<in>set (map the row). \<bar>v\<bar> \<le> 2 ^ 40"
  proof
    fix x assume "x \<in> set (map the row)"
    then obtain j where "j < 8" "x = the (row ! j)"
      using assms(1) by (auto simp: in_set_conv_nth)
    with v have "x = 0 \<or> x = 1" by auto
    then show "\<bar>x\<bar> \<le> 2 ^ 40" by auto
  qed
  show "exact row" unfolding exact_def th using b small by (simp add: w)
  show "uint (packed row) = (\<Sum>j<8. the (row ! j) * 2 ^ j)"
    unfolding packed_def w uint_word_of_int using small by simp
qed

lemma flag_column_length:
  "flag_column lib c = Some vs \<Longrightarrow> length vs = column_length c"
  by (auto simp: flag_column_def column_length_def split: column.splits)

text \<open>The rows of a block of numbers and booleans.\<close>

lemma flag_rows:
  assumes "block \<noteq> []" and "\<forall>c\<in>set block. column_length c = n \<and> flag_column lib c \<noteq> None"
  shows "those (map (flag_column lib) block) = Some (map (\<lambda>c. the (flag_column lib c)) block)"
    and "length (transpose (map (\<lambda>c. the (flag_column lib c)) block)) = n"
    and "i < n \<Longrightarrow> transpose (map (\<lambda>c. the (flag_column lib c)) block) ! i
           = map (\<lambda>c. flag lib c i) block"
proof -
  let ?cols = "map (\<lambda>c. the (flag_column lib c)) block"
  show "those (map (flag_column lib) block) = Some ?cols"
    by (rule those_map_all) (use assms(2) in auto)
  have ne: "?cols \<noteq> []" using assms(1) by simp
  have len: "\<forall>vs\<in>set ?cols. length vs = n"
  proof
    fix vs assume "vs \<in> set ?cols"
    then obtain c where c: "c \<in> set block" "vs = the (flag_column lib c)" by auto
    with assms(2) obtain us where us: "flag_column lib c = Some us" by auto
    from flag_column_length [OF us] c assms(2) us show "length vs = n" by simp
  qed
  note tr = transpose_same_length [OF ne len]
  show "length (transpose ?cols) = n" by (rule tr(1))
  show "transpose ?cols ! i = map (\<lambda>c. flag lib c i) block" if i: "i < n"
  proof -
    have "map (\<lambda>vs. vs ! i) ?cols = map (\<lambda>c. flag lib c i) block"
    proof (simp, intro ballI)
      fix c assume c: "c \<in> set block"
      with assms(2) obtain vs where vs: "flag_column lib c = Some vs" by auto
      with c assms(2) have "length vs = n" by (auto dest: flag_column_length)
      with i vs show "the (flag_column lib c) ! i = flag lib c i"
        by (simp add: flag_def)
    qed
    with tr(2) [OF i] show ?thesis by simp
  qed
qed

text \<open>A block of \<open>int64\<close> columns.\<close>

lemma errors_of_int_block:
  assumes "length block = 8" and "\<forall>c\<in>set block. column_length c = n"
    and "\<forall>c\<in>set block. int_column c \<noteq> None"
  shows "\<exists>es. errors_of lib block = Inr es \<and> length es = n
     \<and> (\<forall>i<n. uint (es ! i) = (\<Sum>j<8. the (flag lib (block ! j) i) * 2 ^ j) mod 256)"
proof -
  let ?flags = "map (\<lambda>c. the (int_column c)) block"
  let ?es = "map (\<lambda>row. ucast (dot row error_weights) :: 8 word) (transpose ?flags)"
  have th: "those (map int_column block) = Some ?flags"
    by (rule those_map_all) (rule assms(3))
  have e: "errors_of lib block = Inr ?es"
    unfolding errors_of_def th using assms(1) by simp
  have col: "c = IntCol (the (int_column c))" if "c \<in> set block" for c
    using assms(3) that by (cases c) (auto simp: int_column_def)
  have ne: "?flags \<noteq> []" using assms(1) by auto
  have len: "\<forall>ws\<in>set ?flags. length ws = n"
  proof
    fix ws assume "ws \<in> set ?flags"
    then obtain c where c: "c \<in> set block" "ws = the (int_column c)" by auto
    from col [OF c(1)] have "column_length c = length (the (int_column c))"
      by (cases c) (auto simp: column_length_def int_column_def)
    with assms(2) c show "length ws = n" by simp
  qed
  note tr = transpose_same_length [OF ne len]
  have val: "uint (?es ! i) = (\<Sum>j<8. the (flag lib (block ! j) i) * 2 ^ j) mod 256"
    if i: "i < n" for i
  proof -
    let ?row = "map (\<lambda>ws. ws ! i) ?flags"
    have l: "length ?row = 8" using assms(1) by simp
    have ei: "?es ! i = ucast (dot ?row error_weights)" using i by (simp add: tr)
    have s: "(\<Sum>j<8. sint (?row ! j) * 2 ^ j) = (\<Sum>j<8. the (flag lib (block ! j) i) * 2 ^ j)"
    proof (rule sum.cong)
      fix j :: nat assume "j \<in> {..<8}"
      then have j: "j < length block" using assms(1) by simp
      then have mem: "block ! j \<in> set block" by simp
      from col [OF mem] obtain ws where ws: "block ! j = IntCol ws" by blast
      with assms(2) mem have "length ws = n" by (auto simp: column_length_def)
      with i have "flag lib (block ! j) i = Some (sint (ws ! i))"
        by (simp add: flag_def flag_column_def ws)
      moreover have "?row ! j = ws ! i" using j by (simp add: ws int_column_def)
      ultimately show "sint (?row ! j) * 2 ^ j = the (flag lib (block ! j) i) * 2 ^ j"
        by simp
    qed simp
    from errors_value [OF l] show ?thesis by (simp only: ei s)
  qed
  have "length ?es = n" by (simp add: tr(1))
  with e val show ?thesis by blast
qed

text \<open>Any other block of numbers and booleans.\<close>

lemma errors_of_flag_block:
  assumes "length block = 8"
    and "\<forall>c\<in>set block. column_length c = n \<and> flag_column lib c \<noteq> None"
    and "\<not> (\<forall>c\<in>set block. int_column c \<noteq> None)"
    and "(\<forall>c\<in>set block. is_number c)
         \<or> (\<forall>c\<in>set block. \<forall>i<n. flag lib c i = Some 0 \<or> flag lib c i = Some 1)"
  shows "\<exists>es. errors_of lib block = Inr es \<and> length es = n
     \<and> (\<forall>i<n. (\<forall>j<8. flag lib (block ! j) i = Some 0 \<or> flag lib (block ! j) i = Some 1) \<longrightarrow>
              uint (es ! i) = (\<Sum>j<8. the (flag lib (block ! j) i) * 2 ^ j))"
proof -
  let ?cols = "map (\<lambda>c. the (flag_column lib c)) block"
  let ?rows = "transpose ?cols"
  have ne: "block \<noteq> []" using assms(1) by auto
  note fr = flag_rows [OF ne assms(2)]
  from assms(3) obtain c where "c \<in> set block" "int_column c = None" by auto
  then have ti: "those (map int_column block) = None" by (rule those_map_None)
  have row: "?rows ! i = map (\<lambda>c. flag lib c i) block" if "i < n" for i
    using that by (rule fr(3))
  have good: "exact (?rows ! i) \<and> uint (packed (?rows ! i)) = (\<Sum>j<8. the (flag lib (block ! j) i) * 2 ^ j)"
    if i: "i < n" and b: "\<forall>j<8. flag lib (block ! j) i = Some 0 \<or> flag lib (block ! j) i = Some 1"
    for i
  proof -
    let ?row = "map (\<lambda>c. flag lib c i) block"
    have l: "length ?row = 8" using assms(1) by simp
    have nth: "\<And>j. j < 8 \<Longrightarrow> ?row ! j = flag lib (block ! j) i" using assms(1) by simp
    from b have b': "\<forall>j<8. ?row ! j = Some 0 \<or> ?row ! j = Some 1" by (simp add: nth)
    have s: "(\<Sum>j<8. the (?row ! j) * 2 ^ j) = (\<Sum>j<8. the (flag lib (block ! j) i) * 2 ^ j)"
      by (rule sum.cong) (simp_all add: nth)
    from boolean_row [OF l b'] show ?thesis by (simp only: row [OF i] s)
  qed
  have all_rows: "\<forall>j<8. flag lib (block ! j) i = Some 0 \<or> flag lib (block ! j) i = Some 1"
    if "\<forall>c\<in>set block. \<forall>i<n. flag lib c i = Some 0 \<or> flag lib c i = Some 1" and "i < n" for i
    using that assms(1) by simp
  consider (bool) "list_all is_bool block"
    | (number) "\<not> list_all is_bool block" "list_all is_number block"
    | (object) "\<not> list_all is_bool block" "\<not> list_all is_number block"
    by blast
  then show ?thesis
  proof cases
    case bool
    have e: "errors_of lib block = Inr (map packed ?rows)"
      unfolding errors_of_def ti fr(1) using assms(1) bool by simp
    have "uint (map packed ?rows ! i) = (\<Sum>j<8. the (flag lib (block ! j) i) * 2 ^ j)"
      if "i < n" "\<forall>j<8. flag lib (block ! j) i = Some 0 \<or> flag lib (block ! j) i = Some 1" for i
      using good [OF that] that(1) by (simp add: fr(2))
    with e fr(2) show ?thesis by simp
  next
    case number
    let ?es = "map (\<lambda>r. if exact (snd r) then packed (snd r) else dot_uint8_row lib block (fst r))
                 (enumerate 0 ?rows)"
    have e: "errors_of lib block = Inr ?es"
      unfolding errors_of_def ti fr(1) using assms(1) number by simp
    have "uint (?es ! i) = (\<Sum>j<8. the (flag lib (block ! j) i) * 2 ^ j)"
      if "i < n" "\<forall>j<8. flag lib (block ! j) i = Some 0 \<or> flag lib (block ! j) i = Some 1" for i
      using good [OF that] that(1) by (simp add: fr(2) nth_enumerate_eq)
    moreover have "length ?es = n" by (simp add: fr(2))
    ultimately show ?thesis using e by blast
  next
    case object
    with assms(4) have b: "\<forall>c\<in>set block. \<forall>i<n. flag lib c i = Some 0 \<or> flag lib c i = Some 1"
      by (auto simp: list_all_iff)
    have ex: "list_all exact ?rows"
      unfolding list_all_length
    proof (intro allI impI)
      fix i assume "i < length ?rows"
      then have i: "i < n" by (simp only: fr(2))
      from good [OF i all_rows [OF b i]] show "exact (?rows ! i)" by simp
    qed
    have e: "errors_of lib block = Inr (map packed ?rows)"
      unfolding errors_of_def ti fr(1) using assms(1) object ex by simp
    have "uint (map packed ?rows ! i) = (\<Sum>j<8. the (flag lib (block ! j) i) * 2 ^ j)"
      if "i < n" "\<forall>j<8. flag lib (block ! j) i = Some 0 \<or> flag lib (block ! j) i = Some 1" for i
      using good [OF that] that(1) by (simp add: fr(2))
    with e fr(2) show ?thesis by simp
  qed
qed

lemma slice_map: "list_slice a b (map f xs) = map f (list_slice a b xs)"
  by (simp add: list_slice_def take_map drop_map)

lemma set_slice_subset: "set (list_slice a b xs) \<subseteq> set xs"
  unfolding list_slice_def by (meson set_take_subset set_drop_subset subset_trans)

lemma columns_of_sublist:
  assumes "distinct (map fst dustdata)" and "set sub \<subseteq> set dustdata"
  shows "columns_of dustdata (map fst sub) = Inr (map snd sub)"
proof -
  have m: "map (map_of dustdata) (map fst sub) = map Some (map snd sub)"
  proof (simp, intro ballI)
    fix p assume "p \<in> set sub"
    with assms(2) have "(fst p, snd p) \<in> set dustdata" by auto
    with assms(1) show "map_of dustdata (fst p) = Some (snd p)" by (rule map_of_is_SomeI)
  qed
  have "those (map Some (map snd sub)) = Some (map snd sub)"
    by (induction sub) simp_all
  then show ?thesis unfolding columns_of_def m by simp
qed

lemma columns_of_slice:
  assumes "distinct (map fst dustdata)"
  shows "columns_of dustdata (list_slice a b (map fst dustdata)) = Inr (map snd (list_slice a b dustdata))"
  unfolding slice_map using assms set_slice_subset by (rule columns_of_sublist)

lemma errors_variable:
  assumes "distinct (map fst dustdata)"
    and "map snd (list_slice 11 19 dustdata) = block"
    and "errors_of lib block = Inr es"
  shows "variable lib dustdata Errors
           = Inr \<lparr>name = ''errors'', dtype = UInt8, dims = [''time''], vals = Octets es\<rparr>"
  by (simp add: columns_of_slice [OF assms(1)] assms(2,3))

text \<open>
  C8.  In a table with distinct labels whose columns at the places 11 to 18 (counted
  from 0, the places \<open>dustdata.columns[11:19]\<close>) are columns of numbers or booleans
  of \<open>n\<close> rows, whatever their types:
  \<^item> when the eight columns are \<open>int64\<close>, the variable \<open>errors\<close> has \<open>n\<close> values
    of 8 bits, and the value of every row is the sum over the eight columns of the flag
    times its weight \<open>1, 2, 4, ..., 128\<close>, modulo 256;
  \<^item> when the eight columns are \<open>int64\<close> or \<open>float64\<close>, or when every flag of every
    row is 0 or 1 (as numbers or as \<open>False\<close> and \<open>True\<close>), the variable
    \<open>errors\<close> has \<open>n\<close> values of 8 bits, and the value of every row whose flags are 0
    or 1 is that sum itself.
\<close>

theorem errors_is_packed_bit_field:
  assumes "distinct (map fst dustdata)"
    and "map snd (list_slice 11 19 dustdata) = block"
    and "length block = 8"
    and "\<forall>c\<in>set block. column_length c = n \<and> flag_column lib c \<noteq> None"
  shows "((\<forall>c\<in>set block. int_column c \<noteq> None) \<longrightarrow>
           (\<exists>es. variable lib dustdata Errors
                   = Inr \<lparr>name = ''errors'', dtype = UInt8, dims = [''time''], vals = Octets es\<rparr>
              \<and> length es = n
              \<and> (\<forall>i<n. uint (es ! i) = (\<Sum>j<8. the (flag lib (block ! j) i) * 2 ^ j) mod 256)))
       \<and> (((\<forall>c\<in>set block. is_number c)
            \<or> (\<forall>c\<in>set block. \<forall>i<n. flag lib c i = Some 0 \<or> flag lib c i = Some 1)) \<longrightarrow>
           (\<exists>es. variable lib dustdata Errors
                   = Inr \<lparr>name = ''errors'', dtype = UInt8, dims = [''time''], vals = Octets es\<rparr>
              \<and> length es = n
              \<and> (\<forall>i<n. (\<forall>j<8. flag lib (block ! j) i = Some 0 \<or> flag lib (block ! j) i = Some 1) \<longrightarrow>
                     uint (es ! i) = (\<Sum>j<8. the (flag lib (block ! j) i) * 2 ^ j))))"
proof -
  have len: "\<forall>c\<in>set block. column_length c = n" using assms(4) by simp
  have p1: "(\<forall>c\<in>set block. int_column c \<noteq> None) \<longrightarrow>
           (\<exists>es. variable lib dustdata Errors
                   = Inr \<lparr>name = ''errors'', dtype = UInt8, dims = [''time''], vals = Octets es\<rparr>
              \<and> length es = n
              \<and> (\<forall>i<n. uint (es ! i) = (\<Sum>j<8. the (flag lib (block ! j) i) * 2 ^ j) mod 256))"
  proof
    assume int: "\<forall>c\<in>set block. int_column c \<noteq> None"
    from errors_of_int_block [OF assms(3) len int, of lib] obtain es where
      es: "errors_of lib block = Inr es" "length es = n"
      "\<forall>i<n. uint (es ! i) = (\<Sum>j<8. the (flag lib (block ! j) i) * 2 ^ j) mod 256"
      by blast
    from errors_variable [OF assms(1,2) es(1)] es(2,3)
    show "\<exists>es. variable lib dustdata Errors
                   = Inr \<lparr>name = ''errors'', dtype = UInt8, dims = [''time''], vals = Octets es\<rparr>
              \<and> length es = n
              \<and> (\<forall>i<n. uint (es ! i) = (\<Sum>j<8. the (flag lib (block ! j) i) * 2 ^ j) mod 256)"
      by blast
  qed
  have p2: "((\<forall>c\<in>set block. is_number c)
            \<or> (\<forall>c\<in>set block. \<forall>i<n. flag lib c i = Some 0 \<or> flag lib c i = Some 1)) \<longrightarrow>
           (\<exists>es. variable lib dustdata Errors
                   = Inr \<lparr>name = ''errors'', dtype = UInt8, dims = [''time''], vals = Octets es\<rparr>
              \<and> length es = n
              \<and> (\<forall>i<n. (\<forall>j<8. flag lib (block ! j) i = Some 0 \<or> flag lib (block ! j) i = Some 1) \<longrightarrow>
                     uint (es ! i) = (\<Sum>j<8. the (flag lib (block ! j) i) * 2 ^ j)))"
  proof
    assume h: "(\<forall>c\<in>set block. is_number c)
            \<or> (\<forall>c\<in>set block. \<forall>i<n. flag lib c i = Some 0 \<or> flag lib c i = Some 1)"
    have "\<exists>es. errors_of lib block = Inr es \<and> length es = n
       \<and> (\<forall>i<n. (\<forall>j<8. flag lib (block ! j) i = Some 0 \<or> flag lib (block ! j) i = Some 1) \<longrightarrow>
              uint (es ! i) = (\<Sum>j<8. the (flag lib (block ! j) i) * 2 ^ j))"
    proof (cases "\<forall>c\<in>set block. int_column c \<noteq> None")
      case True
      from errors_of_int_block [OF assms(3) len True, of lib] obtain es where
        es: "errors_of lib block = Inr es" "length es = n"
        "\<forall>i<n. uint (es ! i) = (\<Sum>j<8. the (flag lib (block ! j) i) * 2 ^ j) mod 256"
        by blast
      have "uint (es ! i) = (\<Sum>j<8. the (flag lib (block ! j) i) * 2 ^ j)"
        if i: "i < n" and b: "\<forall>j<8. flag lib (block ! j) i = Some 0 \<or> flag lib (block ! j) i = Some 1"
        for i
      proof -
        from b have "\<forall>j<8. the (flag lib (block ! j) i) = 0 \<or> the (flag lib (block ! j) i) = 1"
          by auto
        from flags_sum_small [OF this] es(3) i show ?thesis by simp
      qed
      with es(1,2) show ?thesis by blast
    next
      case False
      from errors_of_flag_block [OF assms(3,4) False h] show ?thesis .
    qed
    then obtain es where
      es: "errors_of lib block = Inr es" "length es = n"
      "\<forall>i<n. (\<forall>j<8. flag lib (block ! j) i = Some 0 \<or> flag lib (block ! j) i = Some 1) \<longrightarrow>
              uint (es ! i) = (\<Sum>j<8. the (flag lib (block ! j) i) * 2 ^ j)"
      by blast
    from errors_variable [OF assms(1,2) es(1)] es(2,3)
    show "\<exists>es. variable lib dustdata Errors
                   = Inr \<lparr>name = ''errors'', dtype = UInt8, dims = [''time''], vals = Octets es\<rparr>
              \<and> length es = n
              \<and> (\<forall>i<n. (\<forall>j<8. flag lib (block ! j) i = Some 0 \<or> flag lib (block ! j) i = Some 1) \<longrightarrow>
                     uint (es ! i) = (\<Sum>j<8. the (flag lib (block ! j) i) * 2 ^ j))"
      by blast
  qed
  from p1 p2 show ?thesis by (rule conjI)
qed

text \<open>
  The row of the scenario, with the flags of weight 1 and 8 set: \<open>errors = 9\<close>, whether
  the flags are read as integers, as floating-point numbers or as booleans.
\<close>

theorem errors_is_packed_bit_field_witness:
  "variable example_library example_table Errors
     = Inr \<lparr>name = ''errors'', dtype = UInt8, dims = [''time''], vals = Octets [9]\<rparr>
   \<and> variable example_library
       (with_flags (map (\<lambda>x. FloatCol [x]) [1, 0, 0, 1, 0, 0, 0, 0])) Errors
     = Inr \<lparr>name = ''errors'', dtype = UInt8, dims = [''time''], vals = Octets [9]\<rparr>
   \<and> variable example_library
       (with_flags (map (\<lambda>b. BoolCol [b]) [True, False, False, True, False, False, False, False]))
       Errors
     = Inr \<lparr>name = ''errors'', dtype = UInt8, dims = [''time''], vals = Octets [9]\<rparr>"
proof -
  let ?ints = "map (\<lambda>w. IntCol [w]) [1, 0, 0, 1, 0, 0, 0, 0] :: rat column list"
  let ?floats = "map (\<lambda>x. FloatCol [x]) [1, 0, 0, 1, 0, 0, 0, 0] :: rat column list"
  let ?bools = "map (\<lambda>b. BoolCol [b]) [True, False, False, True, False, False, False, False]
                  :: rat column list"
  have single: "es = [9]" if "length es = 1" "uint (es ! 0) = 9" for es :: "8 word list"
  proof -
    from that(2) have "es ! 0 = 9" by (simp add: word_uint_eq_iff)
    with that(1) show ?thesis by (cases es) auto
  qed
  have sum8: "(\<Sum>j<8. f j) = f 0 + f 1 + f 2 + f 3 + f 4 + f 5 + f 6 + f 7" for f :: "nat \<Rightarrow> int"
    by (simp add: eval_nat_numeral)
  have all8: "(\<forall>j<8. P j) \<longleftrightarrow> P 0 \<and> P 1 \<and> P 2 \<and> P 3 \<and> P 4 \<and> P 5 \<and> P 6 \<and> P (7::nat)" for P
    by (simp add: eval_nat_numeral less_Suc_eq) blast
  have w: "whole_value example_library = simple_whole" by (simp add: example_library_def)
  have i1: "distinct (map fst example_table)" by code_simp
  have i2: "map snd (list_slice 11 19 example_table) = ?ints" by code_simp
  have i3: "length ?ints = 8" by simp
  have i4: "\<forall>c\<in>set ?ints. column_length c = 1 \<and> flag_column example_library c \<noteq> None"
    by (simp add: column_length_def flag_column_def)
  have i5: "\<forall>c\<in>set ?ints. int_column c \<noteq> None" by (simp add: int_column_def)
  from errors_is_packed_bit_field [OF i1 i2 i3 i4, THEN conjunct1, THEN mp, OF i5]
  obtain es where es: "variable example_library example_table Errors
       = Inr \<lparr>name = ''errors'', dtype = UInt8, dims = [''time''], vals = Octets es\<rparr>"
    "length es = 1"
    "\<forall>i<1. uint (es ! i) = (\<Sum>j<8. the (flag example_library (?ints ! j) i) * 2 ^ j) mod 256"
    by blast
  from es(3) have "uint (es ! 0) = 9"
    by (simp add: sum8 flag_def flag_column_def)
  from single [OF es(2) this] es(1)
  have a: "variable example_library example_table Errors
     = Inr \<lparr>name = ''errors'', dtype = UInt8, dims = [''time''], vals = Octets [9]\<rparr>"
    by simp
  have f1: "distinct (map fst (with_flags ?floats))" by code_simp
  have f2: "map snd (list_slice 11 19 (with_flags ?floats)) = ?floats" by code_simp
  have f3: "length ?floats = 8" by simp
  have f4: "\<forall>c\<in>set ?floats. column_length c = 1 \<and> flag_column example_library c \<noteq> None"
    by (simp add: column_length_def flag_column_def)
  have f5: "(\<forall>c\<in>set ?floats. is_number c)
      \<or> (\<forall>c\<in>set ?floats. \<forall>i<1. flag example_library c i = Some 0 \<or> flag example_library c i = Some 1)"
    by (simp add: is_number_def)
  from errors_is_packed_bit_field [OF f1 f2 f3 f4, THEN conjunct2, THEN mp, OF f5]
  obtain fs where fs: "variable example_library (with_flags ?floats) Errors
       = Inr \<lparr>name = ''errors'', dtype = UInt8, dims = [''time''], vals = Octets fs\<rparr>"
    "length fs = 1"
    "\<forall>i<1. (\<forall>j<8. flag example_library (?floats ! j) i = Some 0
                   \<or> flag example_library (?floats ! j) i = Some 1) \<longrightarrow>
        uint (fs ! i) = (\<Sum>j<8. the (flag example_library (?floats ! j) i) * 2 ^ j)"
    by blast
  have fv: "flag example_library (FloatCol [1]) 0 = Some 1" "flag example_library (FloatCol [0]) 0 = Some 0"
    by (simp_all add: flag_def flag_column_def w simple_whole_def)
  from fs(3) have "uint (fs ! 0) = 9"
    by (simp add: sum8 all8 fv)
  from single [OF fs(2) this] fs(1)
  have b: "variable example_library (with_flags ?floats) Errors
     = Inr \<lparr>name = ''errors'', dtype = UInt8, dims = [''time''], vals = Octets [9]\<rparr>"
    by simp
  have b1: "distinct (map fst (with_flags ?bools))" by code_simp
  have b2: "map snd (list_slice 11 19 (with_flags ?bools)) = ?bools" by code_simp
  have b3: "length ?bools = 8" by simp
  have b4: "\<forall>c\<in>set ?bools. column_length c = 1 \<and> flag_column example_library c \<noteq> None"
    by (simp add: column_length_def flag_column_def)
  have b5: "(\<forall>c\<in>set ?bools. is_number c)
      \<or> (\<forall>c\<in>set ?bools. \<forall>i<1. flag example_library c i = Some 0 \<or> flag example_library c i = Some 1)"
    by (simp add: flag_def flag_column_def)
  from errors_is_packed_bit_field [OF b1 b2 b3 b4, THEN conjunct2, THEN mp, OF b5]
  obtain bs where bs: "variable example_library (with_flags ?bools) Errors
       = Inr \<lparr>name = ''errors'', dtype = UInt8, dims = [''time''], vals = Octets bs\<rparr>"
    "length bs = 1"
    "\<forall>i<1. (\<forall>j<8. flag example_library (?bools ! j) i = Some 0
                   \<or> flag example_library (?bools ! j) i = Some 1) \<longrightarrow>
        uint (bs ! i) = (\<Sum>j<8. the (flag example_library (?bools ! j) i) * 2 ^ j)"
    by blast
  from bs(3) have "uint (bs ! 0) = 9"
    by (simp add: sum8 all8 flag_def flag_column_def)
  from single [OF bs(2) this] bs(1)
  have c: "variable example_library (with_flags ?bools) Errors
     = Inr \<lparr>name = ''errors'', dtype = UInt8, dims = [''time''], vals = Octets [9]\<rparr>"
    by simp
  from a b c show ?thesis by (intro conjI)
qed





end
